theory Spec2Isabelle
  imports Main "HOL-Library.Word" "HOL-Library.AList"
begin

section \<open>JavaScript strings\<close>

text \<open>
  A JavaScript string is a sequence of UTF-16 code units. The regular expressions of
  \<^verbatim>\<open>src/index.ts\<close> carry no \<^verbatim>\<open>u\<close> flag, so they match code unit by code unit.
\<close>

type_synonym code_unit = "16 word"
type_synonym jsstring = "code_unit list"

text \<open>An ASCII literal as a JavaScript string: one code unit per character.\<close>

definition str :: "string \<Rightarrow> jsstring" where
  "str s = map of_char s"

abbreviation hyphen :: code_unit where "hyphen \<equiv> 0x2D"
abbreviation slash :: code_unit where "slash \<equiv> 0x2F"
abbreviation ampersand :: code_unit where "ampersand \<equiv> 0x26"
abbreviation lparen :: code_unit where "lparen \<equiv> 0x28"
abbreviation rparen :: code_unit where "rparen \<equiv> 0x29"
abbreviation underscore :: code_unit where "underscore \<equiv> 0x5F"
abbreviation dot :: code_unit where "dot \<equiv> 0x2E"

text \<open>
  The class \<^verbatim>\<open>\s\<close> of ECMAScript: TAB, LF, VT, FF, CR, SPACE, NBSP, U+1680,
  U+2000 to U+200A, LS, PS, U+202F, U+205F, U+3000 and the byte order mark.
\<close>

definition is_space :: "code_unit \<Rightarrow> bool" where
  "is_space c \<longleftrightarrow>
     (0x09 \<le> c \<and> c \<le> 0x0D) \<or> c = 0x20 \<or> c = 0xA0 \<or> c = 0x1680 \<or>
     (0x2000 \<le> c \<and> c \<le> 0x200A) \<or> c = 0x2028 \<or> c = 0x2029 \<or>
     c = 0x202F \<or> c = 0x205F \<or> c = 0x3000 \<or> c = 0xFEFF"

definition is_upper :: "code_unit \<Rightarrow> bool" where
  "is_upper c \<longleftrightarrow> 0x41 \<le> c \<and> c \<le> 0x5A"

definition is_lower :: "code_unit \<Rightarrow> bool" where
  "is_lower c \<longleftrightarrow> 0x61 \<le> c \<and> c \<le> 0x7A"

definition is_digit :: "code_unit \<Rightarrow> bool" where
  "is_digit c \<longleftrightarrow> 0x30 \<le> c \<and> c \<le> 0x39"

text \<open>The class \<^verbatim>\<open>\w\<close>: \<^verbatim>\<open>[A-Za-z0-9_]\<close>.\<close>

definition is_word :: "code_unit \<Rightarrow> bool" where
  "is_word c \<longleftrightarrow> is_upper c \<or> is_lower c \<or> is_digit c \<or> c = underscore"

text \<open>
  \<^verbatim>\<open>s.replace(/[class]/g, r)\<close> for a class of single code units: every member is
  replaced.
\<close>

definition replace_each :: "(code_unit \<Rightarrow> bool) \<Rightarrow> code_unit \<Rightarrow> jsstring \<Rightarrow> jsstring" where
  "replace_each P r s = map (\<lambda>c. if P c then r else c) s"

text \<open>
  \<^verbatim>\<open>s.replace(/[class]+/g, r)\<close>: the match starting at a member of the class is
  greedy, so every maximal run of members is replaced by one \<open>r\<close>.
\<close>

function replace_runs :: "(code_unit \<Rightarrow> bool) \<Rightarrow> code_unit \<Rightarrow> jsstring \<Rightarrow> jsstring" where
  "replace_runs P r [] = []"
| "replace_runs P r (c # cs) =
     (if P c then r # replace_runs P r (dropWhile P cs) else c # replace_runs P r cs)"
  by pat_completeness auto
termination
  by (relation "measure (\<lambda>(P, r, s). length s)")
     (auto simp: le_imp_less_Suc length_dropWhile_le)

text \<open>
  \<^verbatim>\<open>s.replace(/^-|-$/g, "")\<close>: a hyphen at index 0 is removed, and then a hyphen at
  the last index, if that is another position.
\<close>

definition strip_edge_hyphens :: "jsstring \<Rightarrow> jsstring" where
  "strip_edge_hyphens s =
     (let t = (case s of [] \<Rightarrow> [] | c # cs \<Rightarrow> if c = hyphen then cs else s)
      in if t \<noteq> [] \<and> last t = hyphen then butlast t else t)"

text \<open>
  \<^verbatim>\<open>String.prototype.toLowerCase\<close>. On a string of ASCII code units it maps
  \<^verbatim>\<open>A-Z\<close> to \<^verbatim>\<open>a-z\<close> and keeps everything else. On any other string the result
  comes from the Unicode case tables, which are no part of the repository: they are the
  parameter \<open>ucd\<close>.
\<close>

definition ascii_lower :: "code_unit \<Rightarrow> code_unit" where
  "ascii_lower c = (if is_upper c then c + 0x20 else c)"

definition toLowerCase :: "(jsstring \<Rightarrow> jsstring) \<Rightarrow> jsstring \<Rightarrow> jsstring" where
  "toLowerCase ucd s = (if list_all (\<lambda>c. c < 0x80) s then map ascii_lower s else ucd s)"

section \<open>formatFileName\<close>

definition formatFileName :: "(jsstring \<Rightarrow> jsstring) \<Rightarrow> jsstring \<Rightarrow> jsstring" where
  "formatFileName ucd name =
     (let s1 = replace_runs is_space hyphen name;
          s2 = replace_each (\<lambda>c. c = slash) hyphen s1;
          s3 = replace_each (\<lambda>c. c = ampersand) hyphen s2;
          s4 = replace_each (\<lambda>c. c = lparen) hyphen s3;
          s5 = replace_each (\<lambda>c. c = rparen) hyphen s4;
          s6 = replace_each (\<lambda>c. \<not> (is_word c \<or> c = hyphen)) hyphen s5;
          s7 = replace_runs (\<lambda>c. c = hyphen) hyphen s6;
          s8 = strip_edge_hyphens s7
      in toLowerCase ucd s8)"

text \<open>The string that \<open>formatFileName\<close> has built before its last two steps.\<close>

definition collapsed :: "jsstring \<Rightarrow> jsstring" where
  "collapsed name =
     replace_runs (\<lambda>c. c = hyphen) hyphen
       (replace_each (\<lambda>c. \<not> (is_word c \<or> c = hyphen)) hyphen
         (replace_each (\<lambda>c. c = rparen) hyphen
           (replace_each (\<lambda>c. c = lparen) hyphen
             (replace_each (\<lambda>c. c = ampersand) hyphen
               (replace_each (\<lambda>c. c = slash) hyphen
                 (replace_runs is_space hyphen name))))))"

text \<open>The characters the specification allows in a sanitised name.\<close>

definition is_name_char :: "code_unit \<Rightarrow> bool" where
  "is_name_char c \<longleftrightarrow> is_lower c \<or> is_digit c \<or> c = underscore \<or> c = hyphen"

text \<open>Two hyphens next to each other somewhere in the string.\<close>

fun double_hyphen :: "jsstring \<Rightarrow> bool" where
  "double_hyphen (a # b # cs) = ((a = hyphen \<and> b = hyphen) \<or> double_hyphen (b # cs))"
| "double_hyphen _ = False"

definition clean_name :: "jsstring \<Rightarrow> bool" where
  "clean_name s \<longleftrightarrow>
     list_all is_name_char s \<and> \<not> double_hyphen s \<and>
     (s = [] \<or> (hd s \<noteq> hyphen \<and> last s \<noteq> hyphen))"

section \<open>The path module of Node.js, POSIX flavour\<close>

text \<open>
  \<^verbatim>\<open>path.join\<close> and \<^verbatim>\<open>path.dirname\<close> belong to the runtime, not to the repository.
  They are modelled after \<^verbatim>\<open>lib/path.js\<close> of Node.js: \<^verbatim>\<open>join\<close> glues its non-empty
  arguments with \<^verbatim>\<open>/\<close> and normalises the result; normalising drops empty and
  \<^verbatim>\<open>.\<close> segments and resolves \<^verbatim>\<open>..\<close> against the segment before it.
\<close>

text \<open>
  The segments of a path, the pieces between its slashes. There is always at least one
  segment, so the first branch of the \<^verbatim>\<open>case\<close> is never taken.
\<close>

fun split_slash :: "jsstring \<Rightarrow> jsstring list" where
  "split_slash [] = [[]]"
| "split_slash (c # cs) =
     (if c = slash then [] # split_slash cs
      else (case split_slash cs of [] \<Rightarrow> [[c]] | x # xs \<Rightarrow> (c # x) # xs))"

fun join_slash :: "jsstring list \<Rightarrow> jsstring" where
  "join_slash [] = []"
| "join_slash [c] = c"
| "join_slash (c # cs) = c @ slash # join_slash cs"

definition normalize_step :: "bool \<Rightarrow> jsstring list \<Rightarrow> jsstring \<Rightarrow> jsstring list" where
  "normalize_step allowAboveRoot res c =
     (if c = [] \<or> c = [dot] then res
      else if c = [dot, dot] then
        (if res \<noteq> [] \<and> last res \<noteq> [dot, dot] then butlast res
         else if allowAboveRoot then res @ [c]
         else res)
      else res @ [c])"

definition normalizeString :: "jsstring \<Rightarrow> bool \<Rightarrow> jsstring" where
  "normalizeString path allowAboveRoot =
     join_slash (foldl (normalize_step allowAboveRoot) [] (split_slash path))"

definition normalize :: "jsstring \<Rightarrow> jsstring" where
  "normalize path =
     (if path = [] then [dot]
      else
        let isAbsolute = (hd path = slash);
            trailingSeparator = (last path = slash);
            p = normalizeString path (\<not> isAbsolute)
        in if p = [] then
             (if isAbsolute then [slash] else if trailingSeparator then [dot, slash] else [dot])
           else
             (let q = (if trailingSeparator then p @ [slash] else p)
              in if isAbsolute then slash # q else q))"

definition path_join :: "jsstring list \<Rightarrow> jsstring" where
  "path_join args =
     (let joined = filter (\<lambda>arg. arg \<noteq> []) args
      in if joined = [] then [dot] else normalize (join_slash joined))"

text \<open>
  \<^verbatim>\<open>path.dirname\<close>: scanning from the end and never looking at index 0, skip the
  trailing slashes, then the last segment; \<open>end\<close> is the index of the slash before it.
\<close>

definition dirname :: "jsstring \<Rightarrow> jsstring" where
  "dirname path =
     (if path = [] then [dot]
      else
        let hasRoot = (hd path = slash);
            r = dropWhile (\<lambda>c. c \<noteq> slash) (dropWhile (\<lambda>c. c = slash) (rev (tl path)))
        in if r = [] then (if hasRoot then [slash] else [dot])
           else if hasRoot \<and> length r = 1 then [slash, slash]
           else take (length r) path)"

definition ends_with :: "jsstring \<Rightarrow> jsstring \<Rightarrow> bool" where
  "ends_with s suf \<longleftrightarrow> length suf \<le> length s \<and> drop (length s - length suf) s = suf"

section \<open>Data\<close>

text \<open>
  The interfaces \<^verbatim>\<open>MenuItem\<close>, \<^verbatim>\<open>Category\<close> and \<^verbatim>\<open>MenuData\<close>. The price is a
  JavaScript number that the program only prints into the request, so its type is left
  open. A \<^verbatim>\<open>MenuData\<close> object is given by its entries, in the order of
  \<^verbatim>\<open>Object.entries\<close>.
\<close>

record 'n MenuItem =
  name :: jsstring
  price :: 'n
  tags :: "jsstring list"

record 'n Category =
  Items :: "'n MenuItem list"

type_synonym 'n MenuData = "(jsstring \<times> 'n Category) list"

record GenerateImageOptions =
  prompt :: jsstring
  outputPath :: jsstring
  model :: "jsstring option"

text \<open>
  Every \<^verbatim>\<open>throw new Error(...)\<close> of the source has a constructor of its own; \<open>TypeError\<close>
  is the property access on \<^verbatim>\<open>undefined\<close>; \<open>External\<close> is whatever a service, the
  file system or the JSON parser throws.
\<close>

datatype js_error =
    GoogleKeyMissing
  | OpenAIKeyMissing
  | InputDirNotFound jsstring
  | NoJsonFiles jsstring
  | EmptyPrompt
  | NoImageGenerated
  | InvalidResponse
  | NoImageData
  | TypeError
  | External nat

text \<open>
  A chat completion is the list of its choices, each with \<^verbatim>\<open>message.content\<close>, a
  string or \<^verbatim>\<open>null\<close>.
\<close>

type_synonym ChatCompletion = "jsstring option list"

text \<open>The response of \<^verbatim>\<open>generateContent\<close>; every level may be missing.\<close>

record Blob =
  data :: "jsstring option"

record Part =
  inlineData :: "Blob option"

record Content =
  parts :: "Part list option"

record Candidate =
  content :: "Content option"

record GenerateContentResponse =
  candidates :: "Candidate list option"

text \<open>What a path of the file system holds.\<close>

datatype file_data = Buffer "8 word list" | JsonObject "(jsstring \<times> jsstring) list"

datatype node = Directory | File file_data

section \<open>Environment and state\<close>

text \<open>
  The environment is everything the program reads but does not own. The two services and
  the file system may answer differently each time they are asked, so their answers are
  indexed by the number of calls made before. The request sent to the chat service is a
  function of the category and the item, so the service is given these two. The input
  directory is read through \<open>readdirSync\<close> and \<open>readJson\<close> (\<^verbatim>\<open>readFileSync\<close> followed
  by \<^verbatim>\<open>JSON.parse\<close>, typed as the source casts it); the run does not write there.
  Console output is left out.
\<close>

record 'n env =
  GOOGLE_API_KEY :: "jsstring option"
  OPENAI_API_KEY :: "jsstring option"
  cwd :: jsstring
  unicodeLower :: "jsstring \<Rightarrow> jsstring"
  chat_create :: "nat \<Rightarrow> jsstring \<Rightarrow> 'n MenuItem \<Rightarrow> js_error + ChatCompletion"
  generateContent :: "nat \<Rightarrow> jsstring \<Rightarrow> jsstring \<Rightarrow> js_error + GenerateContentResponse"
  base64 :: "jsstring \<Rightarrow> 8 word list"
  fs_error :: "nat \<Rightarrow> js_error option"
  inputDirExists :: bool
  readdirSync :: "js_error + jsstring list"
  readJson :: "jsstring \<Rightarrow> js_error + 'n MenuData"

text \<open>
  The state: the module-level \<^verbatim>\<open>promptCache\<close> (a \<^verbatim>\<open>Map\<close>, kept in insertion order),
  the file system below the working directory, the three counters of \<^verbatim>\<open>main\<close>, and
  what the run has cost so far: calls to each service, mutating file system calls, and
  the time spent in \<^verbatim>\<open>setTimeout\<close>.
\<close>

record state =
  promptCache :: "(jsstring \<times> jsstring) list"
  fsys :: "jsstring \<rightharpoonup> node"
  openai_calls :: nat
  gemini_calls :: nat
  fs_calls :: nat
  slept_ms :: nat
  totalProcessed :: nat
  totalSkipped :: nat
  totalFailed :: nat

definition truthy :: "jsstring option \<Rightarrow> bool" where
  "truthy v = (case v of None \<Rightarrow> False | Some t \<Rightarrow> t \<noteq> [])"

subsection \<open>File system calls\<close>

text \<open>
  The file system is a map from path strings to what they hold, which is exact for the
  normalised absolute paths that \<^verbatim>\<open>main\<close> builds. Whether the operating system refuses
  a mutating call is not decided here: \<open>fs_error\<close> says so for the call with the given
  number, and a refused call changes nothing but the count. \<^verbatim>\<open>mkdirSync\<close> is the call
  with \<^verbatim>\<open>recursive: true\<close>: it creates the directory and the missing ones above it.
\<close>

definition existsSync :: "state \<Rightarrow> jsstring \<Rightarrow> bool" where
  "existsSync s p \<longleftrightarrow> fsys s p \<noteq> None"

text \<open>The directory and every directory above it, as prefixes of the path.\<close>

definition ancestors :: "jsstring \<Rightarrow> jsstring list" where
  "ancestors p = [take i p. i \<leftarrow> [1..<length p], p ! i = slash] @ [p]"

definition mkdirSync :: "'n env \<Rightarrow> state \<Rightarrow> jsstring \<Rightarrow> (js_error + unit) \<times> state" where
  "mkdirSync env s dir =
     (let s1 = s\<lparr>fs_calls := fs_calls s + 1\<rparr>
      in case fs_error env (fs_calls s) of
           Some e \<Rightarrow> (Inl e, s1)
         | None \<Rightarrow>
             (Inr (),
              s1\<lparr>fsys := foldl (\<lambda>f a. if f a = None then f(a \<mapsto> Directory) else f)
                               (fsys s1) (ancestors dir)\<rparr>))"

definition writeFileSync ::
  "'n env \<Rightarrow> state \<Rightarrow> jsstring \<Rightarrow> file_data \<Rightarrow> (js_error + unit) \<times> state" where
  "writeFileSync env s p d =
     (let s1 = s\<lparr>fs_calls := fs_calls s + 1\<rparr>
      in case fs_error env (fs_calls s) of
           Some e \<Rightarrow> (Inl e, s1)
         | None \<Rightarrow> (Inr (), s1\<lparr>fsys := (fsys s1)(p \<mapsto> File d)\<rparr>))"

section \<open>generatePromptWithGPT\<close>

definition getCacheKey :: "jsstring \<Rightarrow> jsstring \<Rightarrow> jsstring" where
  "getCacheKey itemName category = category @ str ''::'' @ itemName"

text \<open>
  A cache hit returns at once. Otherwise the service is called; \<^verbatim>\<open>choices[0]\<close> of an
  empty list is \<^verbatim>\<open>undefined\<close>, whose \<^verbatim>\<open>message\<close> is a type error; \<^verbatim>\<open>content || ""\<close>
  turns \<^verbatim>\<open>null\<close> into the empty string, which is then refused. The \<^verbatim>\<open>catch\<close> block logs
  and throws the same error again.
\<close>

definition generatePromptWithGPT ::
  "'n env \<Rightarrow> state \<Rightarrow> 'n MenuItem \<Rightarrow> jsstring \<Rightarrow> (js_error + jsstring) \<times> state" where
  "generatePromptWithGPT env s item category =
     (let cacheKey = getCacheKey (name item) category
      in case map_of (promptCache s) cacheKey of
           Some cached \<Rightarrow> (Inr cached, s)
         | None \<Rightarrow>
             (let s1 = s\<lparr>openai_calls := openai_calls s + 1\<rparr>
              in case chat_create env (openai_calls s) category item of
                   Inl e \<Rightarrow> (Inl e, s1)
                 | Inr response \<Rightarrow>
                     (case response of
                        [] \<Rightarrow> (Inl TypeError, s1)
                      | choice # _ \<Rightarrow>
                          (let generatedPrompt = (case choice of None \<Rightarrow> [] | Some t \<Rightarrow> t)
                           in if generatedPrompt = [] then (Inl EmptyPrompt, s1)
                              else (Inr generatedPrompt,
                                    s1\<lparr>promptCache :=
                                         AList.update cacheKey generatedPrompt (promptCache s1)\<rparr>)))))"

section \<open>generateImage\<close>

text \<open>\<^verbatim>\<open>part.inlineData && part.inlineData.data\<close>: the data, when it is a non-empty string.\<close>

definition inline_payload :: "Part \<Rightarrow> jsstring option" where
  "inline_payload part =
     (case inlineData part of
        None \<Rightarrow> None
      | Some blob \<Rightarrow>
          (case data blob of None \<Rightarrow> None | Some d \<Rightarrow> if d = [] then None else Some d))"

text \<open>The body of the \<^verbatim>\<open>if\<close> inside the loop: decode, make the directory, write.\<close>

definition save_image ::
  "'n env \<Rightarrow> state \<Rightarrow> jsstring \<Rightarrow> jsstring \<Rightarrow> (js_error + unit) \<times> state" where
  "save_image env s path imageData =
     (let buffer = base64 env imageData;
          outputDir = dirname path
      in case (if \<not> existsSync s outputDir then mkdirSync env s outputDir else (Inr (), s)) of
           (Inl e, s1) \<Rightarrow> (Inl e, s1)
         | (Inr _, s1) \<Rightarrow> writeFileSync env s1 path (Buffer buffer))"

text \<open>
  The \<^verbatim>\<open>for\<close> loop over the parts with its \<^verbatim>\<open>break\<close>, and the test of \<^verbatim>\<open>imageSaved\<close>
  after it.
\<close>

fun save_first_image ::
  "'n env \<Rightarrow> state \<Rightarrow> jsstring \<Rightarrow> Part list \<Rightarrow> (js_error + unit) \<times> state" where
  "save_first_image env s path [] = (Inl NoImageData, s)"
| "save_first_image env s path (part # rest) =
     (case inline_payload part of
        None \<Rightarrow> save_first_image env s path rest
      | Some imageData \<Rightarrow> save_image env s path imageData)"

text \<open>The default of the destructuring: \<^verbatim>\<open>model = "gemini-2.5-flash-image"\<close>.\<close>

definition model_of :: "GenerateImageOptions \<Rightarrow> jsstring" where
  "model_of options =
     (case model options of None \<Rightarrow> str ''gemini-2.5-flash-image'' | Some v \<Rightarrow> v)"

definition generateImage ::
  "'n env \<Rightarrow> state \<Rightarrow> GenerateImageOptions \<Rightarrow> (js_error + unit) \<times> state" where
  "generateImage env s options =
     (let m = model_of options
      in if \<not> truthy (GOOGLE_API_KEY env) then (Inl GoogleKeyMissing, s)
         else
           (let s1 = s\<lparr>gemini_calls := gemini_calls s + 1\<rparr>
            in case generateContent env (gemini_calls s) m (prompt options) of
                 Inl e \<Rightarrow> (Inl e, s1)
               | Inr response \<Rightarrow>
                   (case candidates response of
                      None \<Rightarrow> (Inl NoImageGenerated, s1)
                    | Some [] \<Rightarrow> (Inl NoImageGenerated, s1)
                    | Some (candidate # _) \<Rightarrow>
                        (case content candidate of
                           None \<Rightarrow> (Inl InvalidResponse, s1)
                         | Some c \<Rightarrow>
                             (case parts c of
                                None \<Rightarrow> (Inl InvalidResponse, s1)
                              | Some ps \<Rightarrow> save_first_image env s1 (outputPath options) ps)))))"

section \<open>main\<close>

definition inputDir :: "'n env \<Rightarrow> jsstring" where
  "inputDir env = path_join [cwd env, str ''input'']"

definition outputBaseDir :: "'n env \<Rightarrow> jsstring" where
  "outputBaseDir env = path_join [cwd env, str ''output'']"

definition cacheOutputPath :: "'n env \<Rightarrow> jsstring" where
  "cacheOutputPath env = path_join [cwd env, str ''prompts-cache.json'']"

text \<open>\<^verbatim>\<open>file.replace(/\.json$/, "").toLowerCase()\<close>.\<close>

definition segment_of :: "'n env \<Rightarrow> jsstring \<Rightarrow> jsstring" where
  "segment_of env file =
     toLowerCase (unicodeLower env)
       (if ends_with file (str ''.json'') then take (length file - 5) file else file)"

text \<open>The three lines that compute \<^verbatim>\<open>outputPath\<close> for an item.\<close>

definition item_outputPath :: "'n env \<Rightarrow> jsstring \<Rightarrow> jsstring \<Rightarrow> 'n MenuItem \<Rightarrow> jsstring" where
  "item_outputPath env segment formattedCategory item =
     (let fileName = formatFileName (unicodeLower env) (name item) @ str ''.png'';
          categoryDir = path_join [outputBaseDir env, segment, formattedCategory]
      in path_join [categoryDir, fileName])"

text \<open>The body of the \<^verbatim>\<open>try\<close> block of one item.\<close>

definition try_item ::
  "'n env \<Rightarrow> state \<Rightarrow> jsstring \<Rightarrow> 'n MenuItem \<Rightarrow> jsstring \<Rightarrow> (js_error + unit) \<times> state" where
  "try_item env s categoryName item path =
     (case generatePromptWithGPT env s item categoryName of
        (Inl e, s1) \<Rightarrow> (Inl e, s1)
      | (Inr p, s1) \<Rightarrow>
          (case generateImage env s1 \<lparr>prompt = p, outputPath = path, model = None\<rparr> of
             (Inl e, s2) \<Rightarrow> (Inl e, s2)
           | (Inr _, s2) \<Rightarrow>
               (Inr (), s2\<lparr>totalProcessed := totalProcessed s2 + 1,
                           slept_ms := slept_ms s2 + 1000\<rparr>)))"

text \<open>One pass through the body of the loop over the items.\<close>

definition process_item ::
  "'n env \<Rightarrow> jsstring \<Rightarrow> jsstring \<Rightarrow> jsstring \<Rightarrow> state \<Rightarrow> 'n MenuItem \<Rightarrow> state" where
  "process_item env segment categoryName formattedCategory s item =
     (let path = item_outputPath env segment formattedCategory item
      in if existsSync s path then s\<lparr>totalSkipped := totalSkipped s + 1\<rparr>
         else
           (case try_item env s categoryName item path of
              (Inl e, s1) \<Rightarrow> s1\<lparr>totalFailed := totalFailed s1 + 1\<rparr>
            | (Inr _, s1) \<Rightarrow> s1))"

definition run_items ::
  "'n env \<Rightarrow> jsstring \<Rightarrow> jsstring \<Rightarrow> jsstring \<Rightarrow> state \<Rightarrow> 'n MenuItem list \<Rightarrow> state" where
  "run_items env segment categoryName formattedCategory s items =
     foldl (process_item env segment categoryName formattedCategory) s items"

definition run_category :: "'n env \<Rightarrow> jsstring \<Rightarrow> state \<Rightarrow> jsstring \<times> 'n Category \<Rightarrow> state" where
  "run_category env segment s entry =
     (let categoryName = fst entry;
          category = snd entry;
          formattedCategory = formatFileName (unicodeLower env) categoryName
      in run_items env segment categoryName formattedCategory s (Items category))"

text \<open>
  The loop over the files. Reading or parsing a document is outside every inner
  \<^verbatim>\<open>try\<close>, so its error leaves the loop.
\<close>

fun run_files :: "'n env \<Rightarrow> state \<Rightarrow> jsstring list \<Rightarrow> (js_error + unit) \<times> state" where
  "run_files env s [] = (Inr (), s)"
| "run_files env s (file # files) =
     (let segment = segment_of env file
      in case readJson env file of
           Inl e \<Rightarrow> (Inl e, s)
         | Inr menuData \<Rightarrow> run_files env (foldl (run_category env segment) s menuData) files)"

text \<open>The figures of the closing report.\<close>

record summary =
  generated :: nat
  skipped :: nat
  failed :: nat
  total :: nat

text \<open>
  \<open>Inl\<close> is the outer \<^verbatim>\<open>catch\<close>, which ends in \<^verbatim>\<open>process.exit(1)\<close>; \<open>Inr\<close> is the
  report of a run that came to its end.
\<close>

definition main :: "'n env \<Rightarrow> state \<Rightarrow> (js_error + summary) \<times> state" where
  "main env s =
     (if \<not> truthy (GOOGLE_API_KEY env) then (Inl GoogleKeyMissing, s)
      else if \<not> truthy (OPENAI_API_KEY env) then (Inl OpenAIKeyMissing, s)
      else if \<not> inputDirExists env then (Inl (InputDirNotFound (inputDir env)), s)
      else
        (case readdirSync env of
           Inl e \<Rightarrow> (Inl e, s)
         | Inr listing \<Rightarrow>
             (let files = filter (\<lambda>file. ends_with file (str ''.json'')) listing
              in if files = [] then (Inl (NoJsonFiles (inputDir env)), s)
                 else
                   (let s0 = s\<lparr>totalProcessed := 0, totalSkipped := 0, totalFailed := 0\<rparr>
                    in case run_files env s0 files of
                         (Inl e, s1) \<Rightarrow> (Inl e, s1)
                       | (Inr _, s1) \<Rightarrow>
                           (case writeFileSync env s1 (cacheOutputPath env)
                                   (JsonObject (promptCache s1)) of
                              (Inl e, s2) \<Rightarrow> (Inl e, s2)
                            | (Inr _, s2) \<Rightarrow>
                                (Inr \<lparr>generated = totalProcessed s2,
                                      skipped = totalSkipped s2,
                                      failed = totalFailed s2,
                                      total = totalProcessed s2 + totalSkipped s2
                                              + totalFailed s2\<rparr>,
                                 s2))))))"

section \<open>Notions used to state the properties\<close>

text \<open>The number of items a document holds, and the number the run enumerates.\<close>

definition count_items :: "'n MenuData \<Rightarrow> nat" where
  "count_items menuData = sum_list (map (\<lambda>entry. length (Items (snd entry))) menuData)"

definition enumerated :: "'n env \<Rightarrow> jsstring list \<Rightarrow> nat" where
  "enumerated env files =
     sum_list (map (\<lambda>file. case readJson env file of Inl e \<Rightarrow> 0 | Inr d \<Rightarrow> count_items d) files)"

text \<open>
  A path segment that normalising leaves alone: not empty, not \<^verbatim>\<open>.\<close> or \<^verbatim>\<open>..\<close>, and
  without a slash. An absolute path in normal form is a slash before each of its
  segments; the root itself is the single slash.
\<close>

definition plain_segment :: "jsstring \<Rightarrow> bool" where
  "plain_segment c \<longleftrightarrow> c \<noteq> [] \<and> c \<noteq> [dot] \<and> c \<noteq> [dot, dot] \<and> slash \<notin> set c"

definition absolute_path :: "jsstring list \<Rightarrow> jsstring" where
  "absolute_path segments =
     (if segments = [] then [slash] else concat (map (\<lambda>c. slash # c) segments))"

text \<open>Every file the second file system holds, the first one holds with the same data.\<close>

definition no_new_file :: "(jsstring \<rightharpoonup> node) \<Rightarrow> (jsstring \<rightharpoonup> node) \<Rightarrow> bool" where
  "no_new_file before after \<longleftrightarrow> (\<forall>p d. after p = Some (File d) \<longrightarrow> before p = Some (File d))"

text \<open>
  Every JSON snapshot the second file system holds, the first one holds with the same
  entries. The images are written as buffers, so the cache snapshot is the only JSON
  object the program writes.
\<close>

definition no_new_snapshot :: "(jsstring \<rightharpoonup> node) \<Rightarrow> (jsstring \<rightharpoonup> node) \<Rightarrow> bool" where
  "no_new_snapshot before after \<longleftrightarrow>
     (\<forall>p d. after p = Some (File (JsonObject d)) \<longrightarrow> before p = Some (File (JsonObject d)))"

text \<open>The three counters of \<^verbatim>\<open>main\<close>, and their sum.\<close>

definition counters :: "state \<Rightarrow> nat \<times> nat \<times> nat" where
  "counters s = (totalProcessed s, totalSkipped s, totalFailed s)"

definition tally :: "state \<Rightarrow> nat" where
  "tally s = totalProcessed s + totalSkipped s + totalFailed s"

text \<open>
  Between two states the counters and the time slept are the same and no snapshot was
  written: what a call to one of the two services may change.
\<close>

definition same_run :: "state \<Rightarrow> state \<Rightarrow> bool" where
  "same_run s s' \<longleftrightarrow>
     counters s' = counters s \<and> slept_ms s' = slept_ms s \<and>
     no_new_snapshot (fsys s) (fsys s')"

text \<open>
  Between two states \<open>n\<close> items were counted, no counter went down and no snapshot was
  written.
\<close>

definition advances :: "nat \<Rightarrow> state \<Rightarrow> state \<Rightarrow> bool" where
  "advances n s s' \<longleftrightarrow>
     tally s' = tally s + n \<and>
     totalProcessed s \<le> totalProcessed s' \<and> totalSkipped s \<le> totalSkipped s' \<and>
     totalFailed s \<le> totalFailed s' \<and>
     no_new_snapshot (fsys s) (fsys s')"

section \<open>A concrete environment\<close>

text \<open>
  A working directory \<^verbatim>\<open>/w\<close>, both keys set, one document \<^verbatim>\<open>menu.json\<close> with the
  category \<^verbatim>\<open>Mains\<close> and two items, a chat service that always answers, an image service
  that always returns a text part followed by an image part, and a file system that
  never refuses. The runs below vary it.
\<close>

definition item_a :: "nat MenuItem" where
  "item_a = \<lparr>name = str ''Soup'', price = 7, tags = [str ''hot'']\<rparr>"

definition item_b :: "nat MenuItem" where
  "item_b = \<lparr>name = str ''Tea'', price = 2, tags = []\<rparr>"

definition text_part :: Part where
  "text_part = \<lparr>inlineData = None\<rparr>"

definition image_part :: "jsstring \<Rightarrow> Part" where
  "image_part d = \<lparr>inlineData = Some \<lparr>data = Some d\<rparr>\<rparr>"

definition candidate_of :: "Part list \<Rightarrow> Candidate" where
  "candidate_of ps = \<lparr>content = Some \<lparr>parts = Some ps\<rparr>\<rparr>"

definition image_response :: GenerateContentResponse where
  "image_response = \<lparr>candidates = Some [candidate_of [text_part, image_part (str ''QQ'')]]\<rparr>"

definition demo_env :: "nat env" where
  "demo_env =
     \<lparr>GOOGLE_API_KEY = Some (str ''g''),
      OPENAI_API_KEY = Some (str ''o''),
      cwd = str ''/w'',
      unicodeLower = (\<lambda>s. s),
      chat_create = (\<lambda>n category item. Inr [Some (str ''draw '' @ name item)]),
      generateContent = (\<lambda>n m p. Inr image_response),
      base64 = (\<lambda>d. map ucast d),
      fs_error = (\<lambda>n. None),
      inputDirExists = True,
      readdirSync = Inr [str ''menu.json''],
      readJson = (\<lambda>file. Inr [(str ''Mains'', \<lparr>Items = [item_a, item_b]\<rparr>)])\<rparr>"

definition state0 :: state where
  "state0 =
     \<lparr>promptCache = [], fsys = Map.empty, openai_calls = 0, gemini_calls = 0,
      fs_calls = 0, slept_ms = 0, totalProcessed = 0, totalSkipped = 0, totalFailed = 0\<rparr>"

text \<open>The chat service is down.\<close>

definition failing_chat_env :: "nat env" where
  "failing_chat_env = demo_env\<lparr>chat_create := (\<lambda>n category item. Inl (External 500))\<rparr>"

text \<open>The chat service answers with \<^verbatim>\<open>null\<close> content.\<close>

definition empty_chat_env :: "nat env" where
  "empty_chat_env = demo_env\<lparr>chat_create := (\<lambda>n category item. Inr [None])\<rparr>"

text \<open>The image of the first item is there already.\<close>

definition soup_exists :: state where
  "soup_exists = state0\<lparr>fsys := [str ''/w/output/menu/mains/soup.png'' \<mapsto> File (Buffer [])]\<rparr>"

text \<open>A response with two images in its first candidate and one in its second.\<close>

definition two_candidates :: GenerateContentResponse where
  "two_candidates =
     \<lparr>candidates = Some [candidate_of [text_part, image_part (str ''QQ''), image_part (str ''ZZ'')],
                         candidate_of [image_part (str ''YY'')]]\<rparr>"

text \<open>A response whose only image is in its second candidate.\<close>

definition late_image :: GenerateContentResponse where
  "late_image =
     \<lparr>candidates = Some [candidate_of [text_part], candidate_of [image_part (str ''YY'')]]\<rparr>"

text \<open>Options for one call of \<^verbatim>\<open>generateImage\<close>.\<close>

definition demo_options :: GenerateImageOptions where
  "demo_options = \<lparr>prompt = str ''draw Soup'', outputPath = str ''/w/soup.png'', model = None\<rparr>"

text \<open>The image service fails on its first call only.\<close>

definition flaky_image_env :: "nat env" where
  "flaky_image_env =
     demo_env\<lparr>generateContent :=
       (\<lambda>n m p. if n = 0 then Inl (External 503) else Inr image_response)\<rparr>"

text \<open>The chat service fails on its first call only.\<close>

definition flaky_chat_env :: "nat env" where
  "flaky_chat_env =
     demo_env\<lparr>chat_create :=
       (\<lambda>n category item. if n = 0 then Inl (External 429)
                           else Inr [Some (str ''draw '' @ name item)])\<rparr>"

text \<open>Two documents, the second of which cannot be parsed.\<close>

definition two_files_env :: "nat env" where
  "two_files_env =
     demo_env\<lparr>readdirSync := Inr [str ''a.json'', str ''b.json''],
               readJson := (\<lambda>f. if f = str ''a.json''
                                then Inr [(str ''Mains'', \<lparr>Items = [item_a]\<rparr>)]
                                else Inl (External 1))\<rparr>"

section \<open>Properties of the sanitiser\<close>

lemmas char_defs =
  is_space_def is_word_def is_upper_def is_lower_def is_digit_def is_name_char_def

lemmas to_nat = word_le_nat_alt word_less_nat_alt word_unat_eq_iff unat_word_ariths

lemmas sanitiser_defs =
  formatFileName_def str_def replace_each_def strip_edge_hyphens_def toLowerCase_def
  ascii_lower_def char_defs

lemma word_char_ascii: "is_word c \<or> c = hyphen \<Longrightarrow> c < 0x80"
  unfolding char_defs by (simp add: to_nat) arith

lemma ascii_lower_hyphen: "ascii_lower c = hyphen \<longleftrightarrow> c = hyphen"
  unfolding ascii_lower_def char_defs by (simp add: to_nat)

lemma ascii_lower_name_char: "is_word c \<or> c = hyphen \<Longrightarrow> is_name_char (ascii_lower c)"
  unfolding ascii_lower_def char_defs by (simp add: to_nat) arith

lemma name_char_word: "is_name_char c \<Longrightarrow> is_word c \<or> c = hyphen"
  unfolding char_defs by blast

lemma name_char_not_upper: "is_name_char c \<Longrightarrow> \<not> is_upper c"
  unfolding char_defs by (simp add: to_nat) arith

lemma name_char_not_space: "is_name_char c \<Longrightarrow> \<not> is_space c"
  unfolding char_defs by (simp add: to_nat) arith

lemma name_char_not_special:
  "is_name_char c \<Longrightarrow> c \<noteq> slash \<and> c \<noteq> ampersand \<and> c \<noteq> lparen \<and> c \<noteq> rparen"
  unfolding char_defs by (simp add: to_nat) arith

lemma double_hyphen_Cons:
  "double_hyphen (a # s) \<longleftrightarrow> (s \<noteq> [] \<and> a = hyphen \<and> hd s = hyphen) \<or> double_hyphen s"
  by (cases s) auto

lemma double_hyphen_iff: "double_hyphen s \<longleftrightarrow> (\<exists>u v. s = u @ hyphen # hyphen # v)"
proof (induction s)
  case Nil
  show ?case by simp
next
  case (Cons a s)
  have "(\<exists>u v. a # s = u @ hyphen # hyphen # v) \<longleftrightarrow>
        (\<exists>v. a = hyphen \<and> s = hyphen # v) \<or> (\<exists>u v. s = u @ hyphen # hyphen # v)"
    by (auto simp: Cons_eq_append_conv)
  moreover have "(\<exists>v. a = hyphen \<and> s = hyphen # v) \<longleftrightarrow> (s \<noteq> [] \<and> a = hyphen \<and> hd s = hyphen)"
    by (cases s) auto
  ultimately show ?case using Cons.IH by (simp add: double_hyphen_Cons)
qed

lemma replace_runs_set: "set (replace_runs P r s) \<subseteq> insert r (set s)"
  by (induction P r s rule: replace_runs.induct) (auto dest: set_dropWhileD)

lemma replace_runs_Nil_iff: "replace_runs P r s = [] \<longleftrightarrow> s = []"
  by (cases s) auto

lemma replace_runs_hd: "s \<noteq> [] \<Longrightarrow> \<not> P (hd s) \<Longrightarrow> hd (replace_runs P r s) = hd s"
  by (cases s) auto

lemma replace_runs_id: "list_all (\<lambda>c. \<not> P c) s \<Longrightarrow> replace_runs P r s = s"
  by (induction s) auto

lemma collapse_no_double: "\<not> double_hyphen (replace_runs (\<lambda>c. c = hyphen) hyphen s)"
proof (induction "\<lambda>c::code_unit. c = hyphen" hyphen s rule: replace_runs.induct)
  case 1
  show ?case by simp
next
  case (2 c cs)
  show ?case
  proof (cases "c = hyphen")
    case True
    let ?d = "dropWhile (\<lambda>c. c = hyphen) cs"
    have "?d \<noteq> [] \<Longrightarrow> hd ?d \<noteq> hyphen"
      using hd_dropWhile[of "\<lambda>c. c = hyphen" cs] by simp
    then have "replace_runs (\<lambda>c. c = hyphen) hyphen ?d \<noteq> [] \<Longrightarrow>
         hd (replace_runs (\<lambda>c. c = hyphen) hyphen ?d) \<noteq> hyphen"
      by (simp add: replace_runs_Nil_iff replace_runs_hd)
    with True 2 show ?thesis by (auto simp: double_hyphen_Cons)
  next
    case False
    with 2 show ?thesis by (simp add: double_hyphen_Cons)
  qed
qed

lemma collapse_id: "\<not> double_hyphen s \<Longrightarrow> replace_runs (\<lambda>c. c = hyphen) hyphen s = s"
proof (induction s)
  case Nil
  show ?case by simp
next
  case (Cons a s)
  then have IH: "replace_runs (\<lambda>c. c = hyphen) hyphen s = s"
    by (simp add: double_hyphen_Cons)
  show ?case
  proof (cases "a = hyphen")
    case True
    with Cons.prems have "s = [] \<or> hd s \<noteq> hyphen" by (auto simp: double_hyphen_Cons)
    then have "dropWhile (\<lambda>c. c = hyphen) s = s" by (cases s) auto
    with True IH show ?thesis by simp
  next
    case False
    with IH show ?thesis by simp
  qed
qed

lemma double_hyphen_butlast: "\<not> double_hyphen s \<Longrightarrow> \<not> double_hyphen (butlast s)"
proof (rule notI)
  assume nd: "\<not> double_hyphen s" and "double_hyphen (butlast s)"
  then obtain u v where uv: "butlast s = u @ hyphen # hyphen # v"
    by (auto simp: double_hyphen_iff)
  then have "s \<noteq> []" by auto
  then have "s = butlast s @ [last s]" by simp
  with uv have "s = u @ hyphen # hyphen # (v @ [last s])" by simp
  with nd show False unfolding double_hyphen_iff by blast
qed

lemma last_butlast_hyphen:
  assumes "\<not> double_hyphen s" "s \<noteq> []" "last s = hyphen" "butlast s \<noteq> []"
  shows "last (butlast s) \<noteq> hyphen"
proof
  assume h: "last (butlast s) = hyphen"
  define b where "b = butlast (butlast s)"
  from assms have 1: "s = butlast s @ [hyphen]" by (metis append_butlast_last_id)
  from assms h have 2: "butlast s = b @ [hyphen]"
    unfolding b_def by (metis append_butlast_last_id)
  have "s = b @ hyphen # hyphen # []" by (subst 1, subst 2) simp
  with assms(1) show False unfolding double_hyphen_iff by blast
qed

lemma strip_edge_hyphens_set: "set (strip_edge_hyphens s) \<subseteq> set s"
  by (auto simp: strip_edge_hyphens_def Let_def split: list.splits dest: in_set_butlastD)

lemma strip_edge_hyphens_clean:
  assumes nd: "\<not> double_hyphen s"
  shows "\<not> double_hyphen (strip_edge_hyphens s)"
    and "strip_edge_hyphens s = [] \<or>
         (hd (strip_edge_hyphens s) \<noteq> hyphen \<and> last (strip_edge_hyphens s) \<noteq> hyphen)"
proof -
  define t where "t = (case s of [] \<Rightarrow> [] | c # cs \<Rightarrow> if c = hyphen then cs else s)"
  have r: "strip_edge_hyphens s = (if t \<noteq> [] \<and> last t = hyphen then butlast t else t)"
    by (simp add: strip_edge_hyphens_def t_def)
  have t1: "\<not> double_hyphen t"
    using nd by (auto simp: t_def double_hyphen_Cons split: list.splits)
  have t2: "t = [] \<or> hd t \<noteq> hyphen"
    using nd by (auto simp: t_def double_hyphen_Cons split: list.splits)
  show "\<not> double_hyphen (strip_edge_hyphens s)"
    using t1 by (simp add: r double_hyphen_butlast)
  show "strip_edge_hyphens s = [] \<or>
         (hd (strip_edge_hyphens s) \<noteq> hyphen \<and> last (strip_edge_hyphens s) \<noteq> hyphen)"
  proof (cases "t \<noteq> [] \<and> last t = hyphen")
    case True
    then have rb: "strip_edge_hyphens s = butlast t" by (simp add: r)
    show ?thesis
    proof (cases "butlast t = []")
      case True
      with rb show ?thesis by simp
    next
      case False
      then have "hd (butlast t) = hd t" by (cases t) auto
      moreover have "last (butlast t) \<noteq> hyphen"
        using last_butlast_hyphen[OF t1] True False by blast
      ultimately show ?thesis using t2 True rb by auto
    qed
  next
    case False
    then show ?thesis using t2 by (auto simp: r)
  qed
qed

lemma strip_edge_hyphens_id:
  "s = [] \<or> (hd s \<noteq> hyphen \<and> last s \<noteq> hyphen) \<Longrightarrow> strip_edge_hyphens s = s"
  by (cases s) (auto simp: strip_edge_hyphens_def)

lemma double_hyphen_map:
  assumes "\<And>c. f c = hyphen \<longleftrightarrow> c = hyphen"
  shows "double_hyphen (map f s) = double_hyphen s"
  by (induction s rule: double_hyphen.induct) (simp_all add: assms)

lemma toLowerCase_word_chars:
  assumes "list_all (\<lambda>c. is_word c \<or> c = hyphen) s"
  shows "toLowerCase ucd s = map ascii_lower s"
proof -
  from assms have "list_all (\<lambda>c. c < 0x80) s"
    by (induction s) (simp_all add: word_char_ascii)
  then show ?thesis by (simp add: toLowerCase_def)
qed

lemma formatFileName_collapsed:
  "formatFileName ucd x = toLowerCase ucd (strip_edge_hyphens (collapsed x))"
  by (simp add: formatFileName_def collapsed_def Let_def)

lemma collapsed_word_chars: "list_all (\<lambda>c. is_word c \<or> c = hyphen) (collapsed x)"
proof -
  have "set (collapsed x) \<subseteq> insert hyphen {c. is_word c \<or> c = hyphen}"
    unfolding collapsed_def
    by (rule order_trans[OF replace_runs_set]) (auto simp: replace_each_def)
  then show ?thesis by (auto simp: list_all_iff)
qed

lemma formatFileName_eq_map:
  "formatFileName ucd x = map ascii_lower (strip_edge_hyphens (collapsed x))"
proof -
  have "list_all (\<lambda>c. is_word c \<or> c = hyphen) (strip_edge_hyphens (collapsed x))"
    using collapsed_word_chars[of x] strip_edge_hyphens_set[of "collapsed x"]
    by (auto simp: list_all_iff)
  then show ?thesis by (simp add: formatFileName_collapsed toLowerCase_word_chars)
qed

lemma formatFileName_clean: "clean_name (formatFileName ucd x)"
proof -
  let ?s = "strip_edge_hyphens (collapsed x)"
  have nd: "\<not> double_hyphen (collapsed x)"
    by (simp add: collapsed_def collapse_no_double)
  have w: "list_all (\<lambda>c. is_word c \<or> c = hyphen) ?s"
    using collapsed_word_chars[of x] strip_edge_hyphens_set[of "collapsed x"]
    by (auto simp: list_all_iff)
  have 1: "list_all is_name_char (map ascii_lower ?s)"
    using w by (auto simp: list_all_iff ascii_lower_name_char)
  have 2: "\<not> double_hyphen (map ascii_lower ?s)"
    using strip_edge_hyphens_clean(1)[OF nd] by (simp add: double_hyphen_map ascii_lower_hyphen)
  have 3: "map ascii_lower ?s = [] \<or>
           (hd (map ascii_lower ?s) \<noteq> hyphen \<and> last (map ascii_lower ?s) \<noteq> hyphen)"
    using strip_edge_hyphens_clean(2)[OF nd]
    by (auto simp: hd_map last_map ascii_lower_hyphen)
  show ?thesis unfolding formatFileName_eq_map clean_name_def using 1 2 3 by blast
qed

lemma formatFileName_fixed:
  assumes "clean_name s"
  shows "formatFileName ucd s = s"
proof -
  from assms have nc: "list_all is_name_char s" and nd: "\<not> double_hyphen s"
    and ed: "s = [] \<or> (hd s \<noteq> hyphen \<and> last s \<noteq> hyphen)"
    by (auto simp: clean_name_def)
  have a: "replace_runs is_space hyphen s = s"
    using nc by (intro replace_runs_id) (auto simp: list_all_iff name_char_not_space)
  have b: "replace_each P hyphen s = s" if "\<And>c. is_name_char c \<Longrightarrow> \<not> P c" for P
    using nc that by (auto simp: replace_each_def list_all_iff intro: map_idI)
  have c: "collapsed s = s"
    unfolding collapsed_def
    using name_char_not_special name_char_word
    by (simp add: a b collapse_id[OF nd])
  have d: "map ascii_lower s = s"
    using nc by (auto simp: list_all_iff ascii_lower_def name_char_not_upper intro: map_idI)
  show ?thesis
    by (simp add: formatFileName_eq_map c strip_edge_hyphens_id[OF ed] d)
qed

text \<open>
  C7. Sanitising is idempotent: for every input string \<open>x\<close>, sanitising the sanitised
  string gives the sanitised string again, whatever the Unicode tables say about other strings.
\<close>

theorem formatFileName_idempotent:
  "formatFileName ucd (formatFileName ucd x) = formatFileName ucd x"
  by (rule formatFileName_fixed) (rule formatFileName_clean)

theorem formatFileName_idempotent_witness:
  "formatFileName (\<lambda>s. s) (formatFileName (\<lambda>s. s) (str ''A & b'')) = str ''a-b''"
  using formatFileName_idempotent [of "\<lambda>s. s" "str ''A & b''"]
  by (simp add: sanitiser_defs)

text \<open>
  C8. The shape of a sanitised string: every code unit is a lower-case letter, a digit, an
  underscore or a hyphen; the string neither starts nor ends with a hyphen; no two hyphens
  stand next to each other. And the example of the specification:
  \<^verbatim>\<open>Grilled Chicken & Rice (Large)\<close> becomes \<^verbatim>\<open>grilled-chicken-rice-large\<close>.
\<close>

theorem formatFileName_shape:
  "list_all is_name_char (formatFileName ucd x) \<and>
   (\<forall>t. formatFileName ucd x \<noteq> hyphen # t) \<and>
   (\<forall>t. formatFileName ucd x \<noteq> t @ [hyphen]) \<and>
   (\<forall>u v. formatFileName ucd x \<noteq> u @ hyphen # hyphen # v) \<and>
   formatFileName ucd (str ''Grilled Chicken & Rice (Large)'') =
     str ''grilled-chicken-rice-large''"
proof -
  have c: "clean_name (formatFileName ucd x)" by (rule formatFileName_clean)
  have 1: "list_all is_name_char (formatFileName ucd x)"
    using c by (simp add: clean_name_def)
  have 2: "\<forall>t. formatFileName ucd x \<noteq> hyphen # t"
    using c by (auto simp: clean_name_def)
  have 3: "\<forall>t. formatFileName ucd x \<noteq> t @ [hyphen]"
    using c by (auto simp: clean_name_def)
  have 4: "\<forall>u v. formatFileName ucd x \<noteq> u @ hyphen # hyphen # v"
    using c by (auto simp: clean_name_def double_hyphen_iff)
  have 5: "formatFileName ucd (str ''Grilled Chicken & Rice (Large)'') =
     str ''grilled-chicken-rice-large''"
    by (simp add: sanitiser_defs)
  from 1 2 3 4 5 show ?thesis by blast
qed

theorem formatFileName_shape_witness:
  "formatFileName (\<lambda>s. s) (str ''-- Fish/Chips (2) --'') = str ''fish-chips-2'' \<and>
   list_all is_name_char (str ''fish-chips-2'') \<and>
   (\<forall>t. str ''fish-chips-2'' \<noteq> hyphen # t) \<and>
   (\<forall>t. str ''fish-chips-2'' \<noteq> t @ [hyphen]) \<and>
   (\<forall>u v. str ''fish-chips-2'' \<noteq> u @ hyphen # hyphen # v)"
proof -
  have e: "formatFileName (\<lambda>s. s) (str ''-- Fish/Chips (2) --'') = str ''fish-chips-2''"
    by (simp add: sanitiser_defs)
  show ?thesis
    using formatFileName_shape [of "\<lambda>s. s" "str ''-- Fish/Chips (2) --''"]
    unfolding e by blast
qed

section \<open>Properties of the two generation steps\<close>

lemma gp_hit:
  "map_of (promptCache s) (getCacheKey (name item) category) = Some v \<Longrightarrow>
   generatePromptWithGPT env s item category = (Inr v, s)"
  by (simp add: generatePromptWithGPT_def)

lemma gp_store:
  assumes "map_of (promptCache s) (getCacheKey (name item) category) = None"
    and "chat_create env (openai_calls s) category item = Inr (Some t # others)"
    and "t \<noteq> []"
  shows "generatePromptWithGPT env s item category =
         (Inr t, s\<lparr>openai_calls := openai_calls s + 1,
                   promptCache := AList.update (getCacheKey (name item) category) t (promptCache s)\<rparr>)"
  using assms by (simp add: generatePromptWithGPT_def)

lemma gp_fail_cache:
  "generatePromptWithGPT env s item category = (Inl e, s') \<Longrightarrow> promptCache s' = promptCache s"
  by (auto simp: generatePromptWithGPT_def Let_def split: option.splits sum.splits list.splits if_splits)

lemma gp_service_error:
  assumes "map_of (promptCache s) (getCacheKey (name item) category) = None"
    and "chat_create env (openai_calls s) category item = Inl e"
  shows "generatePromptWithGPT env s item category = (Inl e, s\<lparr>openai_calls := openai_calls s + 1\<rparr>)"
  using assms by (simp add: generatePromptWithGPT_def)

lemma gp_empty:
  assumes "map_of (promptCache s) (getCacheKey (name item) category) = None"
    and "chat_create env (openai_calls s) category item = Inr (c # others)"
    and "c = None \<or> c = Some []"
  shows "generatePromptWithGPT env s item category = (Inl EmptyPrompt, s\<lparr>openai_calls := openai_calls s + 1\<rparr>)"
  using assms by (auto simp add: generatePromptWithGPT_def)

lemma save_first_image_skip:
  "list_all (\<lambda>q. inline_payload q = None) pre \<Longrightarrow>
   save_first_image env s path (pre @ rest) = save_first_image env s path rest"
  by (induction pre) auto

lemma save_first_image_none:
  "list_all (\<lambda>q. inline_payload q = None) ps \<Longrightarrow>
   save_first_image env s path ps = (Inl NoImageData, s)"
  by (induction ps) auto

lemma save_first_image_first:
  "list_all (\<lambda>q. inline_payload q = None) pre \<Longrightarrow> inline_payload p = Some d \<Longrightarrow>
   save_first_image env s path (pre @ p # post) = save_image env s path d"
  by (simp add: save_first_image_skip)

lemma save_image_written:
  "save_image env s path d = (Inr u, s') \<Longrightarrow> fsys s' path = Some (File (Buffer (base64 env d)))"
  by (auto simp: save_image_def mkdirSync_def writeFileSync_def Let_def split: if_splits option.splits)

lemma save_image_ok:
  "fs_error env (fs_calls s) = None \<Longrightarrow> fs_error env (fs_calls s + 1) = None \<Longrightarrow>
   fst (save_image env s path d) = Inr ()"
  by (auto simp: save_image_def mkdirSync_def writeFileSync_def Let_def split: if_splits option.splits)

lemma no_new_snapshot_refl: "no_new_snapshot f f"
  by (simp add: no_new_snapshot_def)

lemma no_new_snapshot_trans:
  "no_new_snapshot f g \<Longrightarrow> no_new_snapshot g h \<Longrightarrow> no_new_snapshot f h"
  by (simp add: no_new_snapshot_def)

lemma same_run_refl: "same_run s s"
  by (simp add: same_run_def no_new_snapshot_refl)

lemma same_run_trans: "same_run s t \<Longrightarrow> same_run t u \<Longrightarrow> same_run s u"
  by (auto simp: same_run_def intro: no_new_snapshot_trans)

lemma mkdir_fold:
  "foldl (\<lambda>f a. if f a = None then f(a \<mapsto> Directory) else f) f0 ds p = f0 p \<or>
   foldl (\<lambda>f a. if f a = None then f(a \<mapsto> Directory) else f) f0 ds p = Some Directory"
proof (induction ds arbitrary: f0)
  case Nil
  show ?case by simp
next
  case (Cons a ds)
  show ?case using Cons.IH[of "if f0 a = None then f0(a \<mapsto> Directory) else f0"]
    by (auto split: if_splits)
qed

lemma mkdirSync_same_run:
  assumes "mkdirSync env s d = (r, s')"
  shows "same_run s s'"
proof (cases "fs_error env (fs_calls s)")
  case (Some e)
  with assms have "s' = s\<lparr>fs_calls := fs_calls s + 1\<rparr>"
    by (simp add: mkdirSync_def)
  then show ?thesis by (simp add: same_run_def counters_def no_new_snapshot_def)
next
  case None
  let ?g = "foldl (\<lambda>f a. if f a = None then f(a \<mapsto> Directory) else f) (fsys s) (ancestors d)"
  from None assms have s': "s' = s\<lparr>fs_calls := fs_calls s + 1, fsys := ?g\<rparr>"
    by (simp add: mkdirSync_def)
  have "no_new_snapshot (fsys s) ?g"
    unfolding no_new_snapshot_def
  proof (intro allI impI)
    fix p j assume "?g p = Some (File (JsonObject j))"
    with mkdir_fold[of "fsys s" "ancestors d" p]
    show "fsys s p = Some (File (JsonObject j))" by auto
  qed
  with s' show ?thesis by (simp add: same_run_def counters_def)
qed

lemma write_buffer_same_run:
  assumes "writeFileSync env s p (Buffer b) = (r, s')"
  shows "same_run s s'"
proof (cases "fs_error env (fs_calls s)")
  case (Some e)
  with assms have "s' = s\<lparr>fs_calls := fs_calls s + 1\<rparr>"
    by (simp add: writeFileSync_def)
  then show ?thesis by (simp add: same_run_def counters_def no_new_snapshot_def)
next
  case None
  with assms have "s' = s\<lparr>fs_calls := fs_calls s + 1, fsys := (fsys s)(p \<mapsto> File (Buffer b))\<rparr>"
    by (simp add: writeFileSync_def)
  then show ?thesis by (simp add: same_run_def counters_def no_new_snapshot_def)
qed

lemma save_image_same_run:
  assumes "save_image env s p d = (r, s')"
  shows "same_run s s'"
proof -
  obtain r1 s1 where m:
    "(if \<not> existsSync s (dirname p) then mkdirSync env s (dirname p) else (Inr (), s)) = (r1, s1)"
    by (cases "if \<not> existsSync s (dirname p) then mkdirSync env s (dirname p) else (Inr (), s)")
  have 1: "same_run s s1"
    using m by (auto split: if_splits intro: mkdirSync_same_run same_run_refl)
  show ?thesis
  proof (cases r1)
    case (Inl e)
    with assms m have "s' = s1" by (simp add: save_image_def)
    with 1 show ?thesis by simp
  next
    case (Inr u)
    with assms m have "writeFileSync env s1 p (Buffer (base64 env d)) = (r, s')"
      by (simp add: save_image_def)
    from write_buffer_same_run[OF this] 1 show ?thesis by (rule same_run_trans[rotated])
  qed
qed

lemma save_first_image_same_run: "save_first_image env s p ps = (r, s') \<Longrightarrow> same_run s s'"
proof (induction ps)
  case Nil
  then show ?case by (simp add: same_run_refl)
next
  case (Cons a ps)
  then show ?case
    by (cases "inline_payload a") (auto dest: save_image_same_run)
qed

lemma same_run_gemini: "same_run (s\<lparr>gemini_calls := n\<rparr>) s' \<Longrightarrow> same_run s s'"
  by (simp add: same_run_def counters_def)

lemma generateImage_same_run:
  assumes "generateImage env s opts = (r, s')"
  shows "same_run s s'"
proof -
  let ?s1 = "s\<lparr>gemini_calls := gemini_calls s + 1\<rparr>"
  have a: "same_run s ?s1" by (rule same_run_gemini) (rule same_run_refl)
  from assms consider "s' = s" | "s' = ?s1"
    | ps where "save_first_image env ?s1 (outputPath opts) ps = (r, s')"
    by (auto simp: generateImage_def Let_def
             split: if_splits sum.splits option.splits list.splits)
  then show ?thesis
  proof cases
    case 1 then show ?thesis by (simp add: same_run_refl)
  next
    case 2 with a show ?thesis by simp
  next
    case 3
    from save_first_image_same_run[OF this] show ?thesis by (rule same_run_gemini)
  qed
qed

lemma generatePrompt_same_run:
  assumes "generatePromptWithGPT env s item c = (r, s')"
  shows "same_run s s'"
proof -
  from assms have "counters s' = counters s \<and> slept_ms s' = slept_ms s \<and> fsys s' = fsys s"
    by (auto simp: generatePromptWithGPT_def Let_def counters_def
             split: option.splits sum.splits list.splits if_splits)
  then show ?thesis by (simp add: same_run_def no_new_snapshot_def)
qed

text \<open>
  C2. Skip if the output exists: when the computed output path of an item exists, the
  pass through the loop body only adds one to the skipped counter. The state is
  otherwise the same, so neither service was called, and the processed and failed
  counters and the prompt cache are unchanged.
\<close>

theorem skip_if_exists:
  assumes "existsSync s (item_outputPath env segment formattedCategory item)"
  shows "process_item env segment categoryName formattedCategory s item =
           s\<lparr>totalSkipped := totalSkipped s + 1\<rparr> \<and>
         totalSkipped (process_item env segment categoryName formattedCategory s item) =
           totalSkipped s + 1 \<and>
         openai_calls (process_item env segment categoryName formattedCategory s item) =
           openai_calls s \<and>
         gemini_calls (process_item env segment categoryName formattedCategory s item) =
           gemini_calls s \<and>
         totalProcessed (process_item env segment categoryName formattedCategory s item) =
           totalProcessed s \<and>
         totalFailed (process_item env segment categoryName formattedCategory s item) =
           totalFailed s \<and>
         promptCache (process_item env segment categoryName formattedCategory s item) =
           promptCache s"
  using assms by (simp add: process_item_def)

lemma generatePrompt_cases:
  "(\<forall>v. map_of (promptCache s) (getCacheKey (name item) category) = Some v \<longrightarrow>
        generatePromptWithGPT env s item category = (Inr v, s)) \<and>
   (\<forall>t others. map_of (promptCache s) (getCacheKey (name item) category) = None \<longrightarrow>
        chat_create env (openai_calls s) category item = Inr (Some t # others) \<longrightarrow> t \<noteq> [] \<longrightarrow>
        (\<exists>s'. generatePromptWithGPT env s item category = (Inr t, s') \<and>
              openai_calls s' = openai_calls s + 1 \<and>
              promptCache s' =
                AList.update (getCacheKey (name item) category) t (promptCache s) \<and>
              map_of (promptCache s') (getCacheKey (name item) category) = Some t \<and>
              (\<forall>env'. generatePromptWithGPT env' s' item category = (Inr t, s')))) \<and>
   (\<forall>e. map_of (promptCache s) (getCacheKey (name item) category) = None \<longrightarrow>
        chat_create env (openai_calls s) category item = Inl e \<longrightarrow>
        generatePromptWithGPT env s item category =
          (Inl e, s\<lparr>openai_calls := openai_calls s + 1\<rparr>)) \<and>
   (\<forall>c others. map_of (promptCache s) (getCacheKey (name item) category) = None \<longrightarrow>
        chat_create env (openai_calls s) category item = Inr (c # others) \<longrightarrow>
        (c = None \<or> c = Some []) \<longrightarrow>
        generatePromptWithGPT env s item category =
          (Inl EmptyPrompt, s\<lparr>openai_calls := openai_calls s + 1\<rparr>)) \<and>
   (\<forall>e s'. generatePromptWithGPT env s item category = (Inl e, s') \<longrightarrow>
        promptCache s' = promptCache s)"
proof (intro conjI allI impI)
  fix v assume "map_of (promptCache s) (getCacheKey (name item) category) = Some v"
  then show "generatePromptWithGPT env s item category = (Inr v, s)" by (rule gp_hit)
next
  fix t others
  assume a: "map_of (promptCache s) (getCacheKey (name item) category) = None"
    "chat_create env (openai_calls s) category item = Inr (Some t # others)" "t \<noteq> []"
  let ?k = "getCacheKey (name item) category"
  let ?s' = "s\<lparr>openai_calls := openai_calls s + 1,
               promptCache := AList.update ?k t (promptCache s)\<rparr>"
  have 1: "generatePromptWithGPT env s item category = (Inr t, ?s')"
    using a by (rule gp_store)
  have 2: "map_of (promptCache ?s') ?k = Some t" by (simp add: update_conv')
  have 3: "\<forall>env'. generatePromptWithGPT env' ?s' item category = (Inr t, ?s')"
    using gp_hit[OF 2] by blast
  from 1 2 3 show "\<exists>s'. generatePromptWithGPT env s item category = (Inr t, s') \<and>
              openai_calls s' = openai_calls s + 1 \<and>
              promptCache s' =
                AList.update (getCacheKey (name item) category) t (promptCache s) \<and>
              map_of (promptCache s') (getCacheKey (name item) category) = Some t \<and>
              (\<forall>env'. generatePromptWithGPT env' s' item category = (Inr t, s'))"
    by (intro exI[of _ ?s']) simp
next
  fix e
  assume "map_of (promptCache s) (getCacheKey (name item) category) = None"
    "chat_create env (openai_calls s) category item = Inl e"
  then show "generatePromptWithGPT env s item category =
          (Inl e, s\<lparr>openai_calls := openai_calls s + 1\<rparr>)" by (rule gp_service_error)
next
  fix c others
  assume "map_of (promptCache s) (getCacheKey (name item) category) = None"
    "chat_create env (openai_calls s) category item = Inr (c # others)" "c = None \<or> c = Some []"
  then show "generatePromptWithGPT env s item category =
          (Inl EmptyPrompt, s\<lparr>openai_calls := openai_calls s + 1\<rparr>)" by (rule gp_empty)
next
  fix e s' assume "generatePromptWithGPT env s item category = (Inl e, s')"
  then show "promptCache s' = promptCache s" by (rule gp_fail_cache)
qed

text \<open>
  C3. Prompt memoisation without caching of failures. The key of an item in a category
  is the category name, the separator \<^verbatim>\<open>::\<close> and the item name. A key found in the
  cache is answered from the cache and the state stays as it is, so the service is not
  called. On a cache miss, a non-empty answer of the service is stored under that key,
  the other entries staying as they were, and returned, at the cost of one call; from
  then on the same item and category are answered from the cache whatever the service
  would say. A service error and an empty answer are passed on, and no failure changes
  the cache.
\<close>

theorem prompt_memoization:
  "getCacheKey (name item) category = category @ str ''::'' @ name item \<and>
   (\<forall>v. map_of (promptCache s) (category @ str ''::'' @ name item) = Some v \<longrightarrow>
        generatePromptWithGPT env s item category = (Inr v, s)) \<and>
   (\<forall>t others. map_of (promptCache s) (category @ str ''::'' @ name item) = None \<longrightarrow>
        chat_create env (openai_calls s) category item = Inr (Some t # others) \<longrightarrow> t \<noteq> [] \<longrightarrow>
        (\<exists>s'. generatePromptWithGPT env s item category = (Inr t, s') \<and>
              openai_calls s' = openai_calls s + 1 \<and>
              promptCache s' =
                AList.update (category @ str ''::'' @ name item) t (promptCache s) \<and>
              map_of (promptCache s') (category @ str ''::'' @ name item) = Some t \<and>
              (\<forall>env'. generatePromptWithGPT env' s' item category = (Inr t, s')))) \<and>
   (\<forall>e. map_of (promptCache s) (category @ str ''::'' @ name item) = None \<longrightarrow>
        chat_create env (openai_calls s) category item = Inl e \<longrightarrow>
        generatePromptWithGPT env s item category =
          (Inl e, s\<lparr>openai_calls := openai_calls s + 1\<rparr>)) \<and>
   (\<forall>c others. map_of (promptCache s) (category @ str ''::'' @ name item) = None \<longrightarrow>
        chat_create env (openai_calls s) category item = Inr (c # others) \<longrightarrow>
        (c = None \<or> c = Some []) \<longrightarrow>
        generatePromptWithGPT env s item category =
          (Inl EmptyPrompt, s\<lparr>openai_calls := openai_calls s + 1\<rparr>)) \<and>
   (\<forall>e s'. generatePromptWithGPT env s item category = (Inl e, s') \<longrightarrow>
        promptCache s' = promptCache s)"
proof -
  have k: "getCacheKey (name item) category = category @ str ''::'' @ name item"
    by (simp add: getCacheKey_def)
  from generatePrompt_cases[of s item category env] show ?thesis
    unfolding k by (intro conjI) (rule refl, blast+)
qed

lemma generateImage_parts:
  assumes "truthy (GOOGLE_API_KEY env)"
    and "generateContent env (gemini_calls s) (model_of options) (prompt options) = Inr response"
    and "candidates response = Some (c # cs)" "content c = Some ct" "parts ct = Some ps"
  shows "generateImage env s options =
         save_first_image env (s\<lparr>gemini_calls := gemini_calls s + 1\<rparr>) (outputPath options) ps"
  using assms by (simp add: generateImage_def)

lemma generateImage_no_candidates:
  assumes "truthy (GOOGLE_API_KEY env)"
    and "generateContent env (gemini_calls s) (model_of options) (prompt options) = Inr response"
    and "candidates response = None \<or> candidates response = Some []"
  shows "generateImage env s options =
         (Inl NoImageGenerated, s\<lparr>gemini_calls := gemini_calls s + 1\<rparr>)"
  using assms by (auto simp: generateImage_def)

lemma generateImage_invalid:
  assumes "truthy (GOOGLE_API_KEY env)"
    and "generateContent env (gemini_calls s) (model_of options) (prompt options) = Inr response"
    and "candidates response = Some (c # cs)"
    and "content c = None \<or> (\<exists>ct. content c = Some ct \<and> parts ct = None)"
  shows "generateImage env s options =
         (Inl InvalidResponse, s\<lparr>gemini_calls := gemini_calls s + 1\<rparr>)"
  using assms by (auto simp: generateImage_def)

lemma mkdirSync_no_new_file: 
  assumes "mkdirSync env s d = (r, s')"
  shows "no_new_file (fsys s) (fsys s')"
proof (cases "fs_error env (fs_calls s)")
  case (Some e)
  with assms have "s' = s\<lparr>fs_calls := fs_calls s + 1\<rparr>" by (simp add: mkdirSync_def)
  then show ?thesis by (simp add: no_new_file_def)
next
  case None
  let ?g = "foldl (\<lambda>f a. if f a = None then f(a \<mapsto> Directory) else f) (fsys s) (ancestors d)"
  from None assms have s': "s' = s\<lparr>fs_calls := fs_calls s + 1, fsys := ?g\<rparr>"
    by (simp add: mkdirSync_def)
  have "no_new_file (fsys s) ?g"
    unfolding no_new_file_def
  proof (intro allI impI)
    fix p j assume "?g p = Some (File j)"
    with mkdir_fold[of "fsys s" "ancestors d" p]
    show "fsys s p = Some (File j)" by auto
  qed
  with s' show ?thesis by simp
qed

lemma save_image_outcome:
  assumes "save_image env t path d = (r, t')"
  shows "(r = Inr () \<and> fsys t' path = Some (File (Buffer (base64 env d)))) \<or>
         (\<exists>e. r = Inl e \<and> no_new_file (fsys t) (fsys t'))"
proof (cases r)
  case (Inr u)
  with assms save_image_written[of env t path d u t'] show ?thesis by simp
next
  case (Inl e)
  obtain r1 t1 where m:
    "(if \<not> existsSync t (dirname path) then mkdirSync env t (dirname path) else (Inr (), t)) = (r1, t1)"
    by (cases "if \<not> existsSync t (dirname path) then mkdirSync env t (dirname path) else (Inr (), t)")
  have 1: "no_new_file (fsys t) (fsys t1)"
    using m by (auto split: if_splits dest: mkdirSync_no_new_file simp: no_new_file_def)
  have "no_new_file (fsys t) (fsys t')"
  proof (cases r1)
    case (Inl e1)
    with assms m have "t' = t1" by (simp add: save_image_def)
    with 1 show ?thesis by simp
  next
    case (Inr u)
    with assms m have "writeFileSync env t1 path (Buffer (base64 env d)) = (r, t')"
      by (simp add: save_image_def)
    with Inl have "fsys t' = fsys t1"
      by (auto simp: writeFileSync_def Let_def split: option.splits)
    with 1 show ?thesis by simp
  qed
  with Inl show ?thesis by blast
qed

text \<open>
  C5. The first match wins. With the key set and a response received: no candidates, or
  an empty list, is an error; a first candidate without content or parts is an error;
  a first candidate none of whose parts carries a payload is an error, whatever the
  later candidates hold; each of these leaves the file system as it was. Otherwise the
  outcome is that of saving the payload of the first part that carries one, at the
  output path, whatever the later parts and candidates hold. Saving either writes the
  decoded payload at the path, or fails on the file system and adds no file.
\<close>

theorem first_match_wins:
  assumes key: "truthy (GOOGLE_API_KEY env)"
    and resp: "generateContent env (gemini_calls s) (model_of options) (prompt options) = Inr response"
  shows
    "((candidates response = None \<or> candidates response = Some []) \<longrightarrow>
        generateImage env s options =
          (Inl NoImageGenerated, s\<lparr>gemini_calls := gemini_calls s + 1\<rparr>)) \<and>
     (\<forall>c cs. candidates response = Some (c # cs) \<longrightarrow>
        ((content c = None \<or> (\<exists>ct. content c = Some ct \<and> parts ct = None)) \<longrightarrow>
           generateImage env s options =
             (Inl InvalidResponse, s\<lparr>gemini_calls := gemini_calls s + 1\<rparr>)) \<and>
        (\<forall>ct ps. content c = Some ct \<longrightarrow> parts ct = Some ps \<longrightarrow>
           (list_all (\<lambda>q. inline_payload q = None) ps \<longrightarrow>
              generateImage env s options =
                (Inl NoImageData, s\<lparr>gemini_calls := gemini_calls s + 1\<rparr>)) \<and>
           (\<forall>front p d rear. ps = front @ p # rear \<longrightarrow>
              list_all (\<lambda>q. inline_payload q = None) front \<longrightarrow> inline_payload p = Some d \<longrightarrow>
              generateImage env s options =
                save_image env (s\<lparr>gemini_calls := gemini_calls s + 1\<rparr>) (outputPath options) d))) \<and>
     (\<forall>t path d r t'. save_image env t path d = (r, t') \<longrightarrow>
        (r = Inr () \<and> fsys t' path = Some (File (Buffer (base64 env d)))) \<or>
        (\<exists>e. r = Inl e \<and> no_new_file (fsys t) (fsys t')))"
proof (intro conjI allI impI)
  assume "candidates response = None \<or> candidates response = Some []"
  with key resp show "generateImage env s options =
          (Inl NoImageGenerated, s\<lparr>gemini_calls := gemini_calls s + 1\<rparr>)"
    by (rule generateImage_no_candidates)
next
  fix c cs
  assume "candidates response = Some (c # cs)"
    "content c = None \<or> (\<exists>ct. content c = Some ct \<and> parts ct = None)"
  with key resp show "generateImage env s options =
             (Inl InvalidResponse, s\<lparr>gemini_calls := gemini_calls s + 1\<rparr>)"
    by (rule generateImage_invalid)
next
  fix c cs ct ps
  assume a: "candidates response = Some (c # cs)" "content c = Some ct" "parts ct = Some ps"
    and b: "list_all (\<lambda>q. inline_payload q = None) ps"
  show "generateImage env s options =
                (Inl NoImageData, s\<lparr>gemini_calls := gemini_calls s + 1\<rparr>)"
    by (simp add: generateImage_parts[OF key resp a] save_first_image_none[OF b])
next
  fix c cs ct ps front p d rear
  assume a: "candidates response = Some (c # cs)" "content c = Some ct" "parts ct = Some ps"
    and b: "ps = front @ p # rear" "list_all (\<lambda>q. inline_payload q = None) front"
      "inline_payload p = Some d"
  show "generateImage env s options =
          save_image env (s\<lparr>gemini_calls := gemini_calls s + 1\<rparr>) (outputPath options) d"
    by (simp add: generateImage_parts[OF key resp a] b(1) save_first_image_first[OF b(2,3)])
next
  fix t path d r t'
  assume "save_image env t path d = (r, t')"
  then show "(r = Inr () \<and> fsys t' path = Some (File (Buffer (base64 env d)))) \<or>
        (\<exists>e. r = Inl e \<and> no_new_file (fsys t) (fsys t'))"
    by (rule save_image_outcome)
qed

section \<open>Properties of the run\<close>

lemma advances_refl: "advances 0 s s"
  by (simp add: advances_def no_new_snapshot_refl)

lemma advances_trans: "advances m s t \<Longrightarrow> advances n t u \<Longrightarrow> advances (m + n) s u"
  by (auto simp: advances_def intro: no_new_snapshot_trans)

lemma try_item_Inl:
  assumes "try_item env s c item p = (Inl e, s1)"
  shows "same_run s s1"
proof -
  obtain r1 t1 where g: "generatePromptWithGPT env s item c = (r1, t1)"
    by (cases "generatePromptWithGPT env s item c")
  note a = generatePrompt_same_run[OF g]
  show ?thesis
  proof (cases r1)
    case (Inl e1)
    with assms g have "s1 = t1" by (simp add: try_item_def)
    with a show ?thesis by simp
  next
    case (Inr pr)
    obtain r2 t2 where i:
      "generateImage env t1 \<lparr>prompt = pr, outputPath = p, model = None\<rparr> = (r2, t2)"
      by (cases "generateImage env t1 \<lparr>prompt = pr, outputPath = p, model = None\<rparr>")
    note b = generateImage_same_run[OF i]
    from assms g Inr i have "s1 = t2" by (cases r2) (simp_all add: try_item_def)
    with a b show ?thesis by (auto intro: same_run_trans)
  qed
qed

lemma try_item_Inr:
  assumes "try_item env s c item p = (Inr u, s1)"
  shows "\<exists>t. same_run s t \<and> s1 = t\<lparr>totalProcessed := totalProcessed t + 1, slept_ms := slept_ms t + 1000\<rparr>"
proof -
  obtain r1 t1 where g: "generatePromptWithGPT env s item c = (r1, t1)"
    by (cases "generatePromptWithGPT env s item c")
  note a = generatePrompt_same_run[OF g]
  from assms g obtain pr where r1: "r1 = Inr pr" by (cases r1) (simp_all add: try_item_def)
  obtain r2 t2 where i:
    "generateImage env t1 \<lparr>prompt = pr, outputPath = p, model = None\<rparr> = (r2, t2)"
    by (cases "generateImage env t1 \<lparr>prompt = pr, outputPath = p, model = None\<rparr>")
  note b = generateImage_same_run[OF i]
  from assms g r1 i have "s1 = t2\<lparr>totalProcessed := totalProcessed t2 + 1, slept_ms := slept_ms t2 + 1000\<rparr>"
    by (cases r2) (simp_all add: try_item_def)
  moreover from a b have "same_run s t2" by (rule same_run_trans)
  ultimately show ?thesis by blast
qed

lemma process_item_cases:
  fixes env segment categoryName formattedCategory s item
  defines "s' \<equiv> process_item env segment categoryName formattedCategory s item"
  shows "no_new_snapshot (fsys s) (fsys s') \<and>
    (counters s' = (totalProcessed s + 1, totalSkipped s, totalFailed s) \<and> slept_ms s' = slept_ms s + 1000 \<or>
     counters s' = (totalProcessed s, totalSkipped s + 1, totalFailed s) \<and> slept_ms s' = slept_ms s \<or>
     counters s' = (totalProcessed s, totalSkipped s, totalFailed s + 1) \<and> slept_ms s' = slept_ms s)"
proof (cases "existsSync s (item_outputPath env segment formattedCategory item)")
  case True
  then have "s' = s\<lparr>totalSkipped := totalSkipped s + 1\<rparr>"
    by (simp add: s'_def process_item_def)
  then show ?thesis by (simp add: counters_def no_new_snapshot_def)
next
  case False
  let ?p = "item_outputPath env segment formattedCategory item"
  obtain r s1 where t: "try_item env s categoryName item ?p = (r, s1)"
    by (cases "try_item env s categoryName item ?p")
  show ?thesis
  proof (cases r)
    case (Inl e)
    with t False have "s' = s1\<lparr>totalFailed := totalFailed s1 + 1\<rparr>"
      by (simp add: s'_def process_item_def)
    moreover from t Inl have "same_run s s1" by (auto dest: try_item_Inl)
    ultimately show ?thesis by (simp add: same_run_def counters_def)
  next
    case (Inr u)
    with t False have "s' = s1" by (simp add: s'_def process_item_def)
    moreover from t Inr obtain t1 where "same_run s t1"
      "s1 = t1\<lparr>totalProcessed := totalProcessed t1 + 1, slept_ms := slept_ms t1 + 1000\<rparr>"
      by (auto dest: try_item_Inr)
    ultimately show ?thesis by (simp add: same_run_def counters_def)
  qed
qed

lemma process_item_advances:
  "advances 1 s (process_item env segment categoryName formattedCategory s item)"
  using process_item_cases[where s = s and env = env and segment = segment
      and formattedCategory = formattedCategory and item = item and categoryName = categoryName]
  by (auto simp: advances_def tally_def counters_def)

lemma run_items_advances:
  "advances (length items) s (run_items env segment categoryName formattedCategory s items)"
proof (induction items arbitrary: s)
  case Nil
  show ?case by (simp add: run_items_def advances_refl)
next
  case (Cons a items)
  from advances_trans[OF process_item_advances Cons.IH]
  show ?case by (simp add: run_items_def)
qed

lemma run_category_advances:
  "advances (length (Items (snd entry))) s (run_category env segment s entry)"
  by (simp add: run_category_def Let_def run_items_advances)

lemma run_categories_advances:
  "advances (count_items menuData) s (foldl (run_category env segment) s menuData)"
proof (induction menuData arbitrary: s)
  case Nil
  show ?case by (simp add: count_items_def advances_refl)
next
  case (Cons a menuData)
  from advances_trans[OF run_category_advances Cons.IH]
  show ?case by (simp add: count_items_def)
qed

lemma run_files_Inr:
  "run_files env s files = (Inr u, s') \<Longrightarrow> advances (enumerated env files) s s'"
proof (induction files arbitrary: s)
  case Nil
  then show ?case by (simp add: enumerated_def advances_refl)
next
  case (Cons f files)
  from Cons.prems obtain d where d: "readJson env f = Inr d"
    by (cases "readJson env f") simp_all
  let ?t = "foldl (run_category env (segment_of env f)) s d"
  from Cons.prems d have "run_files env ?t files = (Inr u, s')" by simp
  from advances_trans[OF run_categories_advances Cons.IH[OF this]] d
  show ?case by (simp add: enumerated_def)
qed

lemma run_files_any:
  "run_files env s files = (r, s') \<Longrightarrow> \<exists>n. advances n s s'"
proof (induction files arbitrary: s)
  case Nil
  then show ?case by (auto intro: advances_refl)
next
  case (Cons f files)
  show ?case
  proof (cases "readJson env f")
    case (Inl e)
    with Cons.prems show ?thesis by (auto intro: advances_refl)
  next
    case (Inr d)
    let ?t = "foldl (run_category env (segment_of env f)) s d"
    from Cons.prems Inr have "run_files env ?t files = (r, s')" by simp
    from Cons.IH[OF this] obtain n where "advances n ?t s'" by blast
    from advances_trans[OF run_categories_advances this] show ?thesis by blast
  qed
qed

lemma run_files_completes:
  "list_all (\<lambda>file. \<not> isl (readJson env file)) files \<Longrightarrow> fst (run_files env s files) = Inr ()"
proof (induction files arbitrary: s)
  case Nil
  show ?case by simp
next
  case (Cons f files)
  then show ?case by (cases "readJson env f") simp_all
qed

lemma run_files_stops:
  assumes "list_all (\<lambda>file. \<not> isl (readJson env file)) before"
    and "readJson env file = Inl e"
  shows "run_files env s (before @ file # rest) = (Inl e, snd (run_files env s before))"
  using assms
proof (induction before arbitrary: s)
  case Nil
  then show ?case by simp
next
  case (Cons a before)
  then show ?case by (cases "readJson env a") simp_all
qed

lemma save_first_image_written:
  "save_first_image env s path ps = (Inr u, s') \<Longrightarrow>
   \<exists>d. fsys s' path = Some (File (Buffer (base64 env d)))"
proof (induction ps)
  case Nil
  then show ?case by simp
next
  case (Cons a ps)
  then show ?case
    by (cases "inline_payload a") (auto dest: save_image_written)
qed

lemma generateImage_written:
  assumes "generateImage env s options = (Inr u, s')"
  shows "\<exists>d. fsys s' (outputPath options) = Some (File (Buffer (base64 env d)))"
proof -
  from assms obtain ps t where "save_first_image env t (outputPath options) ps = (Inr u, s')"
    by (auto simp: generateImage_def Let_def
             split: if_splits sum.splits option.splits list.splits)
  then show ?thesis by (rule save_first_image_written)
qed

lemma process_item_prompt_fails:
  assumes "\<not> existsSync s (item_outputPath env segment fc item)"
    and "generatePromptWithGPT env s item categoryName = (Inl e, s1)"
  shows "process_item env segment categoryName fc s item = s1\<lparr>totalFailed := totalFailed s1 + 1\<rparr>"
    and "counters (process_item env segment categoryName fc s item) =
         (totalProcessed s, totalSkipped s, totalFailed s + 1)"
proof -
  show 1: "process_item env segment categoryName fc s item = s1\<lparr>totalFailed := totalFailed s1 + 1\<rparr>"
    using assms by (simp add: process_item_def try_item_def)
  from generatePrompt_same_run[OF assms(2)]
  show "counters (process_item env segment categoryName fc s item) =
         (totalProcessed s, totalSkipped s, totalFailed s + 1)"
    unfolding 1 by (simp add: same_run_def counters_def)
qed

lemma process_item_image_fails:
  assumes "\<not> existsSync s (item_outputPath env segment fc item)"
    and "generatePromptWithGPT env s item categoryName = (Inr p, s1)"
    and "generateImage env s1
           \<lparr>prompt = p, outputPath = item_outputPath env segment fc item, model = None\<rparr> = (Inl e, s2)"
  shows "process_item env segment categoryName fc s item = s2\<lparr>totalFailed := totalFailed s2 + 1\<rparr>"
    and "counters (process_item env segment categoryName fc s item) =
         (totalProcessed s, totalSkipped s, totalFailed s + 1)"
proof -
  show 1: "process_item env segment categoryName fc s item = s2\<lparr>totalFailed := totalFailed s2 + 1\<rparr>"
    using assms by (simp add: process_item_def try_item_def)
  from same_run_trans[OF generatePrompt_same_run[OF assms(2)] generateImage_same_run[OF assms(3)]]
  show "counters (process_item env segment categoryName fc s item) =
         (totalProcessed s, totalSkipped s, totalFailed s + 1)"
    unfolding 1 by (simp add: same_run_def counters_def)
qed

lemma process_item_succeeds:
  assumes "\<not> existsSync s (item_outputPath env segment fc item)"
    and "generatePromptWithGPT env s item categoryName = (Inr p, s1)"
    and "generateImage env s1
           \<lparr>prompt = p, outputPath = item_outputPath env segment fc item, model = None\<rparr> = (Inr u, s2)"
  shows "process_item env segment categoryName fc s item =
           s2\<lparr>totalProcessed := totalProcessed s2 + 1, slept_ms := slept_ms s2 + 1000\<rparr>"
    and "counters (process_item env segment categoryName fc s item) =
         (totalProcessed s + 1, totalSkipped s, totalFailed s)"
    and "\<exists>d. fsys (process_item env segment categoryName fc s item)
               (item_outputPath env segment fc item) = Some (File (Buffer d))"
proof -
  show 1: "process_item env segment categoryName fc s item =
           s2\<lparr>totalProcessed := totalProcessed s2 + 1, slept_ms := slept_ms s2 + 1000\<rparr>"
    using assms by (simp add: process_item_def try_item_def)
  from same_run_trans[OF generatePrompt_same_run[OF assms(2)] generateImage_same_run[OF assms(3)]]
  show "counters (process_item env segment categoryName fc s item) =
         (totalProcessed s + 1, totalSkipped s, totalFailed s)"
    unfolding 1 by (simp add: same_run_def counters_def)
  from generateImage_written[OF assms(3)]
  show "\<exists>d. fsys (process_item env segment categoryName fc s item)
               (item_outputPath env segment fc item) = Some (File (Buffer d))"
    unfolding 1 by auto
qed

text \<open>
  C1. Failure isolation. For an item whose output does not exist yet, a failure of the
  prompt step or of the image step adds exactly one to the failed counter and leaves
  the other two alone. The loop goes on with the rest of the items from the state the
  failed item left, and the loop over the documents ends normally whenever every
  document can be read, whatever the services do. In particular, when the image step
  fails for an item and a later item \<open>b\<close> of the same category succeeds, the two
  together add one to processed and one to failed, and the output file of \<open>b\<close> is
  written.
\<close>

theorem failure_isolation:
  "(\<forall>e s1. \<not> existsSync s (item_outputPath env segment fc item) \<longrightarrow>
      generatePromptWithGPT env s item categoryName = (Inl e, s1) \<longrightarrow>
      process_item env segment categoryName fc s item = s1\<lparr>totalFailed := totalFailed s1 + 1\<rparr> \<and>
      counters (process_item env segment categoryName fc s item) =
        (totalProcessed s, totalSkipped s, totalFailed s + 1)) \<and>
   (\<forall>p s1 e s2. \<not> existsSync s (item_outputPath env segment fc item) \<longrightarrow>
      generatePromptWithGPT env s item categoryName = (Inr p, s1) \<longrightarrow>
      generateImage env s1
        \<lparr>prompt = p, outputPath = item_outputPath env segment fc item, model = None\<rparr> = (Inl e, s2) \<longrightarrow>
      process_item env segment categoryName fc s item = s2\<lparr>totalFailed := totalFailed s2 + 1\<rparr> \<and>
      counters (process_item env segment categoryName fc s item) =
        (totalProcessed s, totalSkipped s, totalFailed s + 1)) \<and>
   (\<forall>rest. run_items env segment categoryName fc s (item # rest) =
      run_items env segment categoryName fc (process_item env segment categoryName fc s item) rest) \<and>
   (\<forall>files. list_all (\<lambda>f. \<not> isl (readJson env f)) files \<longrightarrow>
      fst (run_files env s files) = Inr ()) \<and>
   (\<forall>b p s1 e s2 q s3 s4.
      \<not> existsSync s (item_outputPath env segment fc item) \<longrightarrow>
      generatePromptWithGPT env s item categoryName = (Inr p, s1) \<longrightarrow>
      generateImage env s1
        \<lparr>prompt = p, outputPath = item_outputPath env segment fc item, model = None\<rparr> = (Inl e, s2) \<longrightarrow>
      \<not> existsSync (s2\<lparr>totalFailed := totalFailed s2 + 1\<rparr>) (item_outputPath env segment fc b) \<longrightarrow>
      generatePromptWithGPT env (s2\<lparr>totalFailed := totalFailed s2 + 1\<rparr>) b categoryName = (Inr q, s3) \<longrightarrow>
      generateImage env s3
        \<lparr>prompt = q, outputPath = item_outputPath env segment fc b, model = None\<rparr> = (Inr (), s4) \<longrightarrow>
      counters (run_items env segment categoryName fc s [item, b]) =
        (totalProcessed s + 1, totalSkipped s, totalFailed s + 1) \<and>
      (\<exists>d. fsys (run_items env segment categoryName fc s [item, b])
              (item_outputPath env segment fc b) = Some (File (Buffer d))))"
proof (intro conjI allI impI)
  fix e s1
  assume a: "\<not> existsSync s (item_outputPath env segment fc item)"
    "generatePromptWithGPT env s item categoryName = (Inl e, s1)"
  show "process_item env segment categoryName fc s item = s1\<lparr>totalFailed := totalFailed s1 + 1\<rparr>"
    using a by (rule process_item_prompt_fails(1))
  show "counters (process_item env segment categoryName fc s item) =
        (totalProcessed s, totalSkipped s, totalFailed s + 1)"
    using a by (rule process_item_prompt_fails(2))
next
  fix p s1 e s2
  assume a: "\<not> existsSync s (item_outputPath env segment fc item)"
    "generatePromptWithGPT env s item categoryName = (Inr p, s1)"
    "generateImage env s1
        \<lparr>prompt = p, outputPath = item_outputPath env segment fc item, model = None\<rparr> = (Inl e, s2)"
  show "process_item env segment categoryName fc s item = s2\<lparr>totalFailed := totalFailed s2 + 1\<rparr>"
    using a by (rule process_item_image_fails(1))
  show "counters (process_item env segment categoryName fc s item) =
        (totalProcessed s, totalSkipped s, totalFailed s + 1)"
    using a by (rule process_item_image_fails(2))
next
  fix rest
  show "run_items env segment categoryName fc s (item # rest) =
      run_items env segment categoryName fc (process_item env segment categoryName fc s item) rest"
    by (simp add: run_items_def)
next
  fix files
  assume "list_all (\<lambda>f. \<not> isl (readJson env f)) files"
  then show "fst (run_files env s files) = Inr ()" by (rule run_files_completes)
next
  fix b p s1 e s2 q s3 s4
  assume a: "\<not> existsSync s (item_outputPath env segment fc item)"
    "generatePromptWithGPT env s item categoryName = (Inr p, s1)"
    "generateImage env s1
        \<lparr>prompt = p, outputPath = item_outputPath env segment fc item, model = None\<rparr> = (Inl e, s2)"
  and b: "\<not> existsSync (s2\<lparr>totalFailed := totalFailed s2 + 1\<rparr>) (item_outputPath env segment fc b)"
    "generatePromptWithGPT env (s2\<lparr>totalFailed := totalFailed s2 + 1\<rparr>) b categoryName = (Inr q, s3)"
    "generateImage env s3
        \<lparr>prompt = q, outputPath = item_outputPath env segment fc b, model = None\<rparr> = (Inr (), s4)"
  let ?t = "process_item env segment categoryName fc s item"
  have t: "?t = s2\<lparr>totalFailed := totalFailed s2 + 1\<rparr>"
    using a by (rule process_item_image_fails(1))
  have tc: "counters ?t = (totalProcessed s, totalSkipped s, totalFailed s + 1)"
    using a by (rule process_item_image_fails(2))
  have r: "run_items env segment categoryName fc s [item, b] =
           process_item env segment categoryName fc ?t b"
    by (simp add: run_items_def)
  have "counters (process_item env segment categoryName fc ?t b) =
        (totalProcessed ?t + 1, totalSkipped ?t, totalFailed ?t)"
    unfolding t using b by (rule process_item_succeeds(2))
  with tc show "counters (run_items env segment categoryName fc s [item, b]) =
        (totalProcessed s + 1, totalSkipped s, totalFailed s + 1)"
    unfolding r by (simp add: counters_def)
  show "\<exists>d. fsys (run_items env segment categoryName fc s [item, b])
              (item_outputPath env segment fc b) = Some (File (Buffer d))"
    unfolding r t using b by (rule process_item_succeeds(3))
qed

lemma writeFileSync_counters:
  "writeFileSync env s p d = (r, s') \<Longrightarrow> counters s' = counters s"
  by (auto simp: writeFileSync_def Let_def counters_def split: option.splits)

lemma main_Inr:
  assumes "readdirSync env = Inr listing" and "main env s = (Inr r, s')"
  shows "total r = generated r + skipped r + failed r"
    and "total r = enumerated env (filter (\<lambda>f. ends_with f (str ''.json'')) listing)"
proof -
  let ?files = "filter (\<lambda>f. ends_with f (str ''.json'')) listing"
  let ?s0 = "s\<lparr>totalProcessed := 0, totalSkipped := 0, totalFailed := 0\<rparr>"
  obtain r1 s1 where rf: "run_files env ?s0 ?files = (r1, s1)"
    by (cases "run_files env ?s0 ?files")
  obtain r2 s2 where w:
    "writeFileSync env s1 (cacheOutputPath env) (JsonObject (promptCache s1)) = (r2, s2)"
    by (cases "writeFileSync env s1 (cacheOutputPath env) (JsonObject (promptCache s1))")
  from assms rf w have r1: "r1 = Inr ()" and r2: "r2 = Inr ()"
    and r: "r = \<lparr>generated = totalProcessed s2, skipped = totalSkipped s2,
                 failed = totalFailed s2,
                 total = totalProcessed s2 + totalSkipped s2 + totalFailed s2\<rparr>"
    by (auto simp: main_def Let_def split: if_splits sum.splits)
  from r show "total r = generated r + skipped r + failed r" by simp
  from run_files_Inr[OF rf[unfolded r1]] have "tally s1 = enumerated env ?files"
    by (simp add: advances_def tally_def)
  moreover from writeFileSync_counters[OF w] have "tally s2 = tally s1"
    by (simp add: counters_def tally_def)
  ultimately show "total r = enumerated env ?files" using r by (simp add: tally_def)
qed

text \<open>
  C10. Counter accounting. Every item adds one to exactly one of the three counters and
  leaves the other two alone; over the whole loop no counter goes down; and the total
  that a run reports at its end is the sum of the three and equals the number of items
  in the documents it enumerated.
\<close>

theorem counter_accounting:
  "(counters (process_item env segment categoryName fc s item) =
      (totalProcessed s + 1, totalSkipped s, totalFailed s) \<or>
    counters (process_item env segment categoryName fc s item) =
      (totalProcessed s, totalSkipped s + 1, totalFailed s) \<or>
    counters (process_item env segment categoryName fc s item) =
      (totalProcessed s, totalSkipped s, totalFailed s + 1)) \<and>
   (\<forall>files r s'. run_files env s files = (r, s') \<longrightarrow>
      totalProcessed s \<le> totalProcessed s' \<and> totalSkipped s \<le> totalSkipped s' \<and>
      totalFailed s \<le> totalFailed s') \<and>
   (\<forall>listing r s'. readdirSync env = Inr listing \<longrightarrow> main env s = (Inr r, s') \<longrightarrow>
      total r = generated r + skipped r + failed r \<and>
      total r = enumerated env (filter (\<lambda>f. ends_with f (str ''.json'')) listing))"
proof (intro conjI allI impI)
  show "counters (process_item env segment categoryName fc s item) =
      (totalProcessed s + 1, totalSkipped s, totalFailed s) \<or>
    counters (process_item env segment categoryName fc s item) =
      (totalProcessed s, totalSkipped s + 1, totalFailed s) \<or>
    counters (process_item env segment categoryName fc s item) =
      (totalProcessed s, totalSkipped s, totalFailed s + 1)"
    using process_item_cases[where s = s and env = env and segment = segment
      and formattedCategory = fc and item = item and categoryName = categoryName]
    by blast
next
  fix files r s'
  assume "run_files env s files = (r, s')"
  from run_files_any[OF this] obtain n where n: "advances n s s'" by blast
  from n show "totalProcessed s \<le> totalProcessed s'" by (simp add: advances_def)
  from n show "totalSkipped s \<le> totalSkipped s'" by (simp add: advances_def)
  from n show "totalFailed s \<le> totalFailed s'" by (simp add: advances_def)
next
  fix listing r s'
  assume a: "readdirSync env = Inr listing" "main env s = (Inr r, s')"
  show "total r = generated r + skipped r + failed r" using a by (rule main_Inr(1))
  show "total r = enumerated env (filter (\<lambda>f. ends_with f (str ''.json'')) listing)"
    using a by (rule main_Inr(2))
qed

lemma main_Inl_no_snapshot:
  assumes "main env s = (Inl e, s')"
  shows "no_new_snapshot (fsys s) (fsys s')"
proof (cases "truthy (GOOGLE_API_KEY env) \<and> truthy (OPENAI_API_KEY env) \<and> inputDirExists env")
  case False
  with assms have "s' = s" by (auto simp: main_def split: if_splits)
  then show ?thesis by (simp add: no_new_snapshot_refl)
next
  case ok: True
  show ?thesis
  proof (cases "readdirSync env")
    case (Inl e1)
    with assms ok have "s' = s" by (simp add: main_def)
    then show ?thesis by (simp add: no_new_snapshot_refl)
  next
    case (Inr listing)
    let ?files = "filter (\<lambda>f. ends_with f (str ''.json'')) listing"
    let ?s0 = "s\<lparr>totalProcessed := 0, totalSkipped := 0, totalFailed := 0\<rparr>"
    show ?thesis
    proof (cases "?files = []")
      case True
      with assms ok Inr have "s' = s" by (simp add: main_def)
      then show ?thesis by (simp add: no_new_snapshot_refl)
    next
      case False
      obtain r1 s1 where rf: "run_files env ?s0 ?files = (r1, s1)"
        by (cases "run_files env ?s0 ?files")
      from run_files_any[OF rf] have 1: "no_new_snapshot (fsys s) (fsys s1)"
        by (auto simp: advances_def)
      show ?thesis
      proof (cases r1)
        case (Inl e1)
        with assms ok Inr False rf have "s' = s1" by (simp add: main_def)
        with 1 show ?thesis by simp
      next
        case r1: (Inr u)
        obtain r2 s2 where w:
          "writeFileSync env s1 (cacheOutputPath env) (JsonObject (promptCache s1)) = (r2, s2)"
          by (cases "writeFileSync env s1 (cacheOutputPath env) (JsonObject (promptCache s1))")
        from assms ok Inr False rf r1 w obtain e2 where "r2 = Inl e2" "s' = s2"
          by (cases r2) (simp_all add: main_def)
        with w have "fsys s' = fsys s1"
          by (auto simp: writeFileSync_def Let_def split: option.splits)
        with 1 show ?thesis by simp
      qed
    qed
  qed
qed

text \<open>
  C9. A fatal error loses the cache. Whenever \<open>main\<close> ends in \<^verbatim>\<open>process.exit(1)\<close>,
  the run has written no snapshot of the prompt cache. In particular, when a document
  cannot be read or parsed after earlier documents were processed, the run ends there
  with that error, in the state the earlier documents left: the prompts they produced
  are in the cache, and nothing is done after the loop.
\<close>

theorem fatal_error_loses_cache:
  "(\<forall>e s'. main env s = (Inl e, s') \<longrightarrow> no_new_snapshot (fsys s) (fsys s')) \<and>
   (\<forall>listing earlier f rest e.
      truthy (GOOGLE_API_KEY env) \<longrightarrow> truthy (OPENAI_API_KEY env) \<longrightarrow> inputDirExists env \<longrightarrow>
      readdirSync env = Inr listing \<longrightarrow>
      filter (\<lambda>g. ends_with g (str ''.json'')) listing = earlier @ f # rest \<longrightarrow>
      list_all (\<lambda>g. \<not> isl (readJson env g)) earlier \<longrightarrow>
      readJson env f = Inl e \<longrightarrow>
      main env s =
        (Inl e,
         snd (run_files env (s\<lparr>totalProcessed := 0, totalSkipped := 0, totalFailed := 0\<rparr>)
                earlier)))"
proof (intro conjI allI impI)
  fix e s' assume "main env s = (Inl e, s')"
  then show "no_new_snapshot (fsys s) (fsys s')" by (rule main_Inl_no_snapshot)
next
  fix listing earlier f rest e
  assume a: "truthy (GOOGLE_API_KEY env)" "truthy (OPENAI_API_KEY env)" "inputDirExists env"
    "readdirSync env = Inr listing"
    and b: "filter (\<lambda>g. ends_with g (str ''.json'')) listing = earlier @ f # rest"
    and c: "list_all (\<lambda>g. \<not> isl (readJson env g)) earlier" "readJson env f = Inl e"
  let ?s0 = "s\<lparr>totalProcessed := 0, totalSkipped := 0, totalFailed := 0\<rparr>"
  have "run_files env ?s0 (earlier @ f # rest) = (Inl e, snd (run_files env ?s0 earlier))"
    using c by (rule run_files_stops)
  with a b show "main env s = (Inl e, snd (run_files env ?s0 earlier))"
    by (simp add: main_def)
qed

section \<open>Properties of the output path\<close>

lemma split_slash_nonempty: "split_slash s \<noteq> []"
  by (induction s) (auto split: list.splits)

lemma split_slash_append: "split_slash (a @ slash # b) = split_slash a @ split_slash b"
proof (induction a)
  case Nil
  show ?case by simp
next
  case (Cons c a)
  then show ?case
    using split_slash_nonempty[of a] by (auto split: list.splits)
qed

lemma split_slash_plain: "slash \<notin> set c \<Longrightarrow> split_slash c = [c]"
  by (induction c) auto

lemma split_slash_trailing:
  assumes "s \<noteq> []" "last s = slash"
  shows "last (split_slash s) = []"
proof -
  from assms have "s = butlast s @ slash # []" by (metis append_butlast_last_id)
  then have "split_slash s = split_slash (butlast s) @ split_slash []"
    by (metis split_slash_append)
  then show ?thesis by simp
qed

lemma plain_segmentD:
  "plain_segment c \<Longrightarrow> c \<noteq> [] \<and> c \<noteq> [dot] \<and> c \<noteq> [dot, dot] \<and> slash \<notin> set c"
  by (simp add: plain_segment_def)

lemma normalize_step_plain: "plain_segment c \<Longrightarrow> normalize_step a res c = res @ [c]"
  by (simp add: normalize_step_def plain_segment_def)

lemma foldl_normalize_plain:
  "list_all plain_segment cs \<Longrightarrow> foldl (normalize_step a) res cs = res @ cs"
  by (induction cs arbitrary: res) (simp_all add: normalize_step_plain)

lemma split_join_plain:
  "list_all plain_segment cs \<Longrightarrow> cs \<noteq> [] \<Longrightarrow> split_slash (join_slash cs) = cs"
proof (induction cs rule: join_slash.induct)
  case 1
  then show ?case by simp
next
  case (2 c)
  then show ?case by (simp add: split_slash_plain plain_segment_def)
next
  case (3 c d ds)
  then show ?case
    by (simp add: split_slash_append split_slash_plain plain_segment_def)
qed

lemma join_slash_absolute:
  "cs \<noteq> [] \<Longrightarrow> slash # join_slash cs = concat (map (\<lambda>c. slash # c) cs)"
  by (induction cs rule: join_slash.induct) simp_all

lemma join_slash_Nil_iff: "list_all plain_segment cs \<Longrightarrow> join_slash cs = [] \<longleftrightarrow> cs = []"
  by (induction cs rule: join_slash.induct) (simp_all add: plain_segment_def)

lemma split_absolute:
  "list_all plain_segment cs \<Longrightarrow>
   split_slash (absolute_path cs) = [] # (if cs = [] then [[]] else cs)"
proof (cases "cs = []")
  case True
  then show ?thesis by (simp add: absolute_path_def)
next
  case False
  assume p: "list_all plain_segment cs"
  from False have "absolute_path cs = [] @ slash # join_slash cs"
    by (simp add: absolute_path_def join_slash_absolute)
  then have "split_slash (absolute_path cs) = split_slash [] @ split_slash (join_slash cs)"
    by (simp only: split_slash_append)
  with p False show ?thesis by (simp add: split_join_plain)
qed

lemma path_join_absolute:
  assumes cs: "list_all plain_segment cs" and ds: "list_all plain_segment ds" and ne: "ds \<noteq> []"
  shows "path_join (absolute_path cs # ds) = absolute_path (cs @ ds)"
proof -
  let ?a = "absolute_path cs"
  have a_ne: "?a \<noteq> []" by (cases cs) (simp_all add: absolute_path_def)
  have hd_a: "hd ?a = slash" by (cases cs) (simp_all add: absolute_path_def)
  from ds have "filter (\<lambda>arg. arg \<noteq> []) ds = ds"
    by (induction ds) (simp_all add: plain_segment_def)
  with a_ne have f: "filter (\<lambda>arg. arg \<noteq> []) (?a # ds) = ?a # ds" by simp
  let ?j = "join_slash (?a # ds)"
  from ne have j: "?j = ?a @ slash # join_slash ds" by (cases ds) simp_all
  have j_ne: "?j \<noteq> []" using a_ne j by simp
  have hd_j: "hd ?j = slash" using a_ne hd_a j by simp
  have sp: "split_slash ?j = [] # (if cs = [] then [[]] else cs) @ ds"
    by (simp add: j split_slash_append split_absolute[OF cs] split_join_plain[OF ds ne])
  have "last (split_slash ?j) = last ds" using ne by (simp add: sp)
  moreover have "last ds \<noteq> []"
    using ds ne by (induction ds) (auto simp: plain_segment_def)
  ultimately have last_j: "last ?j \<noteq> slash"
    using split_slash_trailing[OF j_ne] by auto
  have fo: "foldl (normalize_step False) [] (split_slash ?j) = cs @ ds"
    using cs ds
    by (simp add: sp normalize_step_def foldl_normalize_plain)
  have n: "normalizeString ?j False = join_slash (cs @ ds)"
    by (simp add: normalizeString_def fo)
  have n_ne: "join_slash (cs @ ds) \<noteq> []"
    using join_slash_Nil_iff[of "cs @ ds"] cs ds ne by simp
  have "normalize ?j = slash # join_slash (cs @ ds)"
    using j_ne hd_j last_j n n_ne by (simp add: normalize_def Let_def)
  also have "\<dots> = absolute_path (cs @ ds)"
    using ne by (simp add: absolute_path_def join_slash_absolute)
  finally show ?thesis using f by (simp add: path_join_def Let_def)
qed

lemmas path_defs = path_join_def normalize_def normalizeString_def normalize_step_def
  absolute_path_def plain_segment_def
lemmas demo_defs = demo_env_def state0_def item_a_def item_b_def text_part_def image_part_def
  candidate_of_def image_response_def

lemma name_char_not_dot: "is_name_char c \<Longrightarrow> c \<noteq> dot \<and> c \<noteq> slash"
  unfolding char_defs by (simp add: to_nat) arith

lemma formatFileName_no_dot_slash:
  "dot \<notin> set (formatFileName ucd x) \<and> slash \<notin> set (formatFileName ucd x)"
  using formatFileName_clean[of ucd x] name_char_not_dot
  by (auto simp: clean_name_def list_all_iff)

lemma category_plain:
  "formatFileName ucd x \<noteq> [] \<Longrightarrow> plain_segment (formatFileName ucd x)"
  using formatFileName_no_dot_slash[of ucd x]
  by (auto simp: plain_segment_def)

lemma fileName_plain: "plain_segment (formatFileName ucd x @ str ''.png'')"
proof -
  have "slash \<notin> set (str ''.png'')" by (simp add: str_def)
  moreover have "length (formatFileName ucd x @ str ''.png'') \<ge> 4" by (simp add: str_def)
  then have "formatFileName ucd x @ str ''.png'' \<noteq> [] \<and>
         formatFileName ucd x @ str ''.png'' \<noteq> [dot] \<and>
         formatFileName ucd x @ str ''.png'' \<noteq> [dot, dot]"
    by (metis One_nat_def length_Cons list.size(3) not_numeral_le_zero numeral_le_one_iff
        semiring_norm(69) semiring_norm(71) Suc_1 numeral_le_iff)
  ultimately show ?thesis
    using formatFileName_no_dot_slash[of ucd x] by (auto simp: plain_segment_def)
qed

lemma segment_of_json:
  "segment_of env (stem @ str ''.json'') = toLowerCase (unicodeLower env) stem"
  by (simp add: segment_of_def ends_with_def str_def)

text \<open>
  C4, as amended. The segment of a document is its file name without \<^verbatim>\<open>.json\<close>,
  in lower case; it is not sanitised. When the working directory is an absolute path in
  normal form, the segment is a plain path segment and the sanitised category name is
  not empty, the output path of an item is
  \<^verbatim>\<open><cwd>/output/<segment>/<sanitised category>/<sanitised item>.png\<close>.
\<close>

theorem output_path_derivation:
  assumes "cwd env = absolute_path comps" and "list_all plain_segment comps"
    and "plain_segment (segment_of env (stem @ str ''.json''))"
    and "formatFileName (unicodeLower env) categoryName \<noteq> []"
  shows "segment_of env (stem @ str ''.json'') = toLowerCase (unicodeLower env) stem \<and>
         item_outputPath env (segment_of env (stem @ str ''.json''))
             (formatFileName (unicodeLower env) categoryName) item =
           absolute_path
             (comps @ [str ''output'', segment_of env (stem @ str ''.json''),
                       formatFileName (unicodeLower env) categoryName,
                       formatFileName (unicodeLower env) (name item) @ str ''.png''])"
proof -
  let ?seg = "segment_of env (stem @ str ''.json'')"
  let ?cat = "formatFileName (unicodeLower env) categoryName"
  let ?file = "formatFileName (unicodeLower env) (name item) @ str ''.png''"
  have out: "plain_segment (str ''output'')" by (simp add: plain_segment_def str_def)
  have base: "outputBaseDir env = absolute_path (comps @ [str ''output''])"
    unfolding outputBaseDir_def assms(1)
    using assms(2) out by (intro path_join_absolute) simp_all
  have cat: "plain_segment ?cat" using assms(4) by (rule category_plain)
  have dir: "path_join [outputBaseDir env, ?seg, ?cat] =
             absolute_path ((comps @ [str ''output'']) @ [?seg, ?cat])"
    unfolding base using assms(2,3) out cat by (intro path_join_absolute) simp_all
  have "path_join [path_join [outputBaseDir env, ?seg, ?cat], ?file] =
        absolute_path (((comps @ [str ''output'']) @ [?seg, ?cat]) @ [?file])"
    unfolding dir using assms(2,3) out cat fileName_plain
    by (intro path_join_absolute) simp_all
  then show ?thesis by (simp add: item_outputPath_def Let_def segment_of_json)
qed

lemma demo_segment: "segment_of demo_env (str ''menu'' @ str ''.json'') = str ''menu''"
  unfolding segment_of_json
  by (simp add: demo_env_def toLowerCase_def ascii_lower_def is_upper_def str_def)

lemma demo_mains: "formatFileName (unicodeLower demo_env) (str ''Mains'') = str ''mains''"
  by (simp add: demo_env_def sanitiser_defs)

lemma demo_soup: "formatFileName (unicodeLower demo_env) (name item_a) = str ''soup''"
  by (simp add: demo_env_def item_a_def sanitiser_defs)

theorem output_path_derivation_witness:
  "item_outputPath demo_env (segment_of demo_env (str ''menu'' @ str ''.json''))
     (formatFileName (unicodeLower demo_env) (str ''Mains'')) item_a =
   str ''/w/output/menu/mains/soup.png''"
proof -
  have 1: "cwd demo_env = absolute_path [str ''w'']"
    by (simp add: demo_env_def absolute_path_def str_def)
  have 2: "list_all plain_segment [str ''w'']" by (simp add: plain_segment_def str_def)
  have 3: "plain_segment (segment_of demo_env (str ''menu'' @ str ''.json''))"
    unfolding demo_segment by (simp add: plain_segment_def str_def)
  have 4: "formatFileName (unicodeLower demo_env) (str ''Mains'') \<noteq> []"
    unfolding demo_mains by (simp add: str_def)
  from output_path_derivation[OF 1 2 3 4, of item_a]
  show ?thesis
    unfolding demo_segment demo_mains demo_soup by (simp add: absolute_path_def str_def)
qed

text \<open>
  C4 as stated fails: the category \<^verbatim>\<open>U+5BFF U+53F8\<close> has no code unit of
  \<^verbatim>\<open>\w\<close>, so its sanitised name is empty, \<^verbatim>\<open>path.join\<close> drops the empty
  segment, and the item lands in \<^verbatim>\<open>/w/output/menu/tea.png\<close>, not in
  \<^verbatim>\<open>/w/output/menu//tea.png\<close>.
\<close>

theorem output_path_counterexample:
  "item_outputPath demo_env (str ''menu'')
     (formatFileName (unicodeLower demo_env) [0x5BFF, 0x53F8]) item_b \<noteq>
   outputBaseDir demo_env @ [slash] @ str ''menu'' @ [slash] @
     formatFileName (unicodeLower demo_env) [0x5BFF, 0x53F8] @ [slash] @
     formatFileName (unicodeLower demo_env) (name item_b) @ str ''.png''"
proof -
  have c: "formatFileName (unicodeLower demo_env) [0x5BFF, 0x53F8] = []"
    by (simp add: demo_env_def sanitiser_defs)
  have t: "formatFileName (unicodeLower demo_env) (name item_b) = str ''tea''"
    by (simp add: demo_env_def item_b_def sanitiser_defs)
  have b: "outputBaseDir demo_env = str ''/w/output''"
    by (simp add: outputBaseDir_def demo_env_def path_defs str_def)
  have d: "path_join [str ''/w/output'', str ''menu'', []] = str ''/w/output/menu''"
    by (simp add: path_defs str_def)
  have p: "path_join [str ''/w/output/menu'', str ''tea'' @ str ''.png''] =
           str ''/w/output/menu/tea.png''"
    by (simp add: path_defs str_def)
  show ?thesis
    unfolding item_outputPath_def Let_def c t b d p by (simp add: str_def)
qed

section \<open>Concrete runs\<close>

lemma pair_of_fst: "fst x = a \<Longrightarrow> x = (a, snd x)"
  by (cases x) simp

lemma generateImage_succeeds:
  assumes "truthy (GOOGLE_API_KEY env)"
    and "generateContent env (gemini_calls s) (model_of options) (prompt options) = Inr response"
    and "candidates response = Some (c # cs)" "content c = Some ct"
    and "parts ct = Some (front @ p # rear)"
    and "list_all (\<lambda>q. inline_payload q = None) front" "inline_payload p = Some d"
    and "fs_error env (fs_calls s) = None" "fs_error env (fs_calls s + 1) = None"
  shows "generateImage env s options = (Inr (), snd (generateImage env s options))"
proof -
  let ?s1 = "s\<lparr>gemini_calls := gemini_calls s + 1\<rparr>"
  have "generateImage env s options = save_image env ?s1 (outputPath options) d"
    by (simp add: generateImage_parts[OF assms(1-5)] save_first_image_first[OF assms(6,7)])
  moreover have "fst (save_image env ?s1 (outputPath options) d) = Inr ()"
    using assms(8,9) by (intro save_image_ok) simp_all
  ultimately show ?thesis by (simp add: pair_of_fst)
qed

lemma generateImage_keeps_cache:
  assumes "generateImage env s options = (r, s')"
  shows "promptCache s' = promptCache s \<and> openai_calls s' = openai_calls s"
proof -
  have m: "promptCache t' = promptCache t \<and> openai_calls t' = openai_calls t"
    if "mkdirSync env t d = (r1, t')" for t d r1 t'
    using that by (auto simp: mkdirSync_def Let_def split: option.splits)
  have w: "promptCache t' = promptCache t \<and> openai_calls t' = openai_calls t"
    if "writeFileSync env t q b = (r1, t')" for t q b r1 t'
    using that by (auto simp: writeFileSync_def Let_def split: option.splits)
  have sv: "promptCache t' = promptCache t \<and> openai_calls t' = openai_calls t"
    if "save_image env t q d = (r1, t')" for t q d r1 t'
  proof -
    obtain r0 t0 where 0:
      "(if \<not> existsSync t (dirname q) then mkdirSync env t (dirname q) else (Inr (), t)) = (r0, t0)"
      by (cases "if \<not> existsSync t (dirname q) then mkdirSync env t (dirname q) else (Inr (), t)")
    then have a: "promptCache t0 = promptCache t \<and> openai_calls t0 = openai_calls t"
      by (auto split: if_splits dest: m)
    show ?thesis
    proof (cases r0)
      case (Inl e)
      with that 0 have "t' = t0" by (simp add: save_image_def)
      with a show ?thesis by simp
    next
      case (Inr u)
      with that 0 have "writeFileSync env t0 q (Buffer (base64 env d)) = (r1, t')"
        by (simp add: save_image_def)
      from w[OF this] a show ?thesis by simp
    qed
  qed
  have sf: "promptCache t' = promptCache t \<and> openai_calls t' = openai_calls t"
    if "save_first_image env t q ps = (r1, t')" for t q ps r1 t'
    using that
  proof (induction ps)
    case Nil
    then show ?case by simp
  next
    case (Cons a ps)
    then show ?case by (cases "inline_payload a") (auto dest: sv)
  qed
  let ?s1 = "s\<lparr>gemini_calls := gemini_calls s + 1\<rparr>"
  from assms consider "s' = s" | "s' = ?s1"
    | ps where "save_first_image env ?s1 (outputPath options) ps = (r, s')"
    by (auto simp: generateImage_def Let_def
             split: if_splits sum.splits option.splits list.splits)
  then show ?thesis
  proof cases
    case 1 then show ?thesis by simp
  next
    case 2 then show ?thesis by simp
  next
    case 3
    from sf[OF 3] show ?thesis by simp
  qed
qed

theorem prompt_memoization_witness:
  "(\<exists>s'. generatePromptWithGPT demo_env state0 item_a (str ''Mains'') = (Inr (str ''draw Soup''), s') \<and>
         openai_calls s' = 1 \<and>
         promptCache s' = [(str ''Mains::Soup'', str ''draw Soup'')] \<and>
         generatePromptWithGPT failing_chat_env s' item_a (str ''Mains'') = (Inr (str ''draw Soup''), s')) \<and>
   generatePromptWithGPT failing_chat_env state0 item_a (str ''Mains'') =
     (Inl (External 500), state0\<lparr>openai_calls := 1\<rparr>) \<and>
   generatePromptWithGPT empty_chat_env state0 item_a (str ''Mains'') =
     (Inl EmptyPrompt, state0\<lparr>openai_calls := 1\<rparr>)"
proof -
  have miss: "map_of (promptCache state0) (str ''Mains'' @ str ''::'' @ name item_a) = None"
    by (simp add: state0_def)
  have upd: "AList.update (str ''Mains'' @ str ''::'' @ name item_a) (str ''draw Soup'')
               (promptCache state0) = [(str ''Mains::Soup'', str ''draw Soup'')]"
    by (simp add: state0_def item_a_def str_def)
  have ans: "chat_create demo_env (openai_calls state0) (str ''Mains'') item_a =
             Inr (Some (str ''draw Soup'') # [])"
    by (simp add: demo_defs str_def)
  have ne: "str ''draw Soup'' \<noteq> []" by (simp add: str_def)
  have err: "chat_create failing_chat_env (openai_calls state0) (str ''Mains'') item_a =
             Inl (External 500)"
    by (simp add: failing_chat_env_def)
  have emp: "chat_create empty_chat_env (openai_calls state0) (str ''Mains'') item_a =
             Inr (None # [])"
    by (simp add: empty_chat_env_def)
  have z: "openai_calls state0 + 1 = 1" by (simp add: state0_def)
  from prompt_memoization[where s = state0 and item = item_a and category = "str ''Mains''"
      and env = demo_env] miss ans ne
  obtain s' where
    "generatePromptWithGPT demo_env state0 item_a (str ''Mains'') = (Inr (str ''draw Soup''), s')"
    "openai_calls s' = openai_calls state0 + 1"
    "promptCache s' = AList.update (str ''Mains'' @ str ''::'' @ name item_a) (str ''draw Soup'')
                        (promptCache state0)"
    "\<forall>env'. generatePromptWithGPT env' s' item_a (str ''Mains'') = (Inr (str ''draw Soup''), s')"
    by blast
  then have 1: "\<exists>s'. generatePromptWithGPT demo_env state0 item_a (str ''Mains'') = (Inr (str ''draw Soup''), s') \<and>
         openai_calls s' = 1 \<and>
         promptCache s' = [(str ''Mains::Soup'', str ''draw Soup'')] \<and>
         generatePromptWithGPT failing_chat_env s' item_a (str ''Mains'') = (Inr (str ''draw Soup''), s')"
    unfolding z upd by blast
  from prompt_memoization[where s = state0 and item = item_a and category = "str ''Mains''"
      and env = failing_chat_env] miss err
  have 2: "generatePromptWithGPT failing_chat_env state0 item_a (str ''Mains'') =
     (Inl (External 500), state0\<lparr>openai_calls := 1\<rparr>)"
    unfolding z by blast
  from prompt_memoization[where s = state0 and item = item_a and category = "str ''Mains''"
      and env = empty_chat_env] miss emp
  have 3: "generatePromptWithGPT empty_chat_env state0 item_a (str ''Mains'') =
     (Inl EmptyPrompt, state0\<lparr>openai_calls := 1\<rparr>)"
    unfolding z by blast
  from 1 2 3 show ?thesis by blast
qed

lemma demo_path_a:
  "item_outputPath demo_env (str ''menu'') (str ''mains'') item_a = str ''/w/output/menu/mains/soup.png''"
proof -
  have b: "outputBaseDir demo_env = str ''/w/output''"
    by (simp add: outputBaseDir_def demo_env_def path_defs str_def)
  have d: "path_join [str ''/w/output'', str ''menu'', str ''mains''] = str ''/w/output/menu/mains''"
    by (simp add: path_defs str_def)
  have p: "path_join [str ''/w/output/menu/mains'', str ''soup'' @ str ''.png''] =
           str ''/w/output/menu/mains/soup.png''"
    by (simp add: path_defs str_def)
  show ?thesis
    unfolding item_outputPath_def Let_def demo_soup b d p by simp
qed

theorem skip_if_exists_witness:
  "process_item demo_env (str ''menu'') (str ''Mains'') (str ''mains'') soup_exists item_a =
     soup_exists\<lparr>totalSkipped := 1\<rparr> \<and>
   openai_calls (process_item demo_env (str ''menu'') (str ''Mains'') (str ''mains'') soup_exists item_a) = 0 \<and>
   gemini_calls (process_item demo_env (str ''menu'') (str ''Mains'') (str ''mains'') soup_exists item_a) = 0"
proof -
  have e: "existsSync soup_exists (item_outputPath demo_env (str ''menu'') (str ''mains'') item_a)"
    unfolding demo_path_a by (simp add: existsSync_def soup_exists_def)
  have z: "totalSkipped soup_exists = 0" "openai_calls soup_exists = 0" "gemini_calls soup_exists = 0"
    by (simp_all add: soup_exists_def state0_def)
  from skip_if_exists[OF e, of "str ''Mains''"] show ?thesis
    by (simp add: z)
qed

theorem first_match_wins_witness:
  "fst (generateImage (demo_env\<lparr>generateContent := (\<lambda>n m p. Inr two_candidates)\<rparr>)
          state0 demo_options) = Inr () \<and>
   fsys (snd (generateImage (demo_env\<lparr>generateContent := (\<lambda>n m p. Inr two_candidates)\<rparr>)
          state0 demo_options)) (str ''/w/soup.png'') =
     Some (File (Buffer (map ucast (str ''QQ'')))) \<and>
   generateImage (demo_env\<lparr>generateContent := (\<lambda>n m p. Inr late_image)\<rparr>) state0 demo_options =
     (Inl NoImageData, state0\<lparr>gemini_calls := 1\<rparr>)"
proof -
  let ?E = "demo_env\<lparr>generateContent := (\<lambda>n m p. Inr two_candidates)\<rparr>"
  let ?F = "demo_env\<lparr>generateContent := (\<lambda>n m p. Inr late_image)\<rparr>"
  let ?s1 = "state0\<lparr>gemini_calls := gemini_calls state0 + 1\<rparr>"
  have keyE: "truthy (GOOGLE_API_KEY ?E)" by (simp add: demo_env_def truthy_def str_def)
  have keyF: "truthy (GOOGLE_API_KEY ?F)" by (simp add: demo_env_def truthy_def str_def)
  have respE: "generateContent ?E (gemini_calls state0) (model_of demo_options) (prompt demo_options)
               = Inr two_candidates" by simp
  have respF: "generateContent ?F (gemini_calls state0) (model_of demo_options) (prompt demo_options)
               = Inr late_image" by simp
  have cE: "candidates two_candidates =
            Some (candidate_of [text_part, image_part (str ''QQ''), image_part (str ''ZZ'')]
                  # [candidate_of [image_part (str ''YY'')]])"
    by (simp add: two_candidates_def)
  have cF: "candidates late_image =
            Some (candidate_of [text_part] # [candidate_of [image_part (str ''YY'')]])"
    by (simp add: late_image_def)
  have ct: "content (candidate_of ps) = Some \<lparr>parts = Some ps\<rparr>" for ps
    by (simp add: candidate_of_def)
  have pt: "parts \<lparr>parts = Some ps\<rparr> = Some ps" for ps :: "Part list" by simp
  have sp: "[text_part, image_part (str ''QQ''), image_part (str ''ZZ'')] =
            [text_part] @ image_part (str ''QQ'') # [image_part (str ''ZZ'')]" by simp
  have none: "list_all (\<lambda>q. inline_payload q = None) [text_part]"
    by (simp add: inline_payload_def text_part_def)
  have some: "inline_payload (image_part (str ''QQ'')) = Some (str ''QQ'')"
    by (simp add: inline_payload_def image_part_def str_def)
  note A = first_match_wins[OF keyE respE]
  from A cE ct pt sp none some
  have g: "generateImage ?E state0 demo_options = save_image ?E ?s1 (outputPath demo_options) (str ''QQ'')"
    by blast
  have ok: "fst (save_image ?E ?s1 (outputPath demo_options) (str ''QQ'')) = Inr ()"
    by (intro save_image_ok) (simp_all add: demo_env_def)
  obtain t' where t': "save_image ?E ?s1 (outputPath demo_options) (str ''QQ'') = (Inr (), t')"
    using pair_of_fst[OF ok] by blast
  from A t' have "fsys t' (outputPath demo_options) = Some (File (Buffer (base64 ?E (str ''QQ''))))"
    by blast
  moreover have "base64 ?E (str ''QQ'') = map ucast (str ''QQ'')" by (simp add: demo_env_def)
  moreover have "outputPath demo_options = str ''/w/soup.png''" by (simp add: demo_options_def)
  ultimately have 2: "fsys (snd (generateImage ?E state0 demo_options)) (str ''/w/soup.png'') =
     Some (File (Buffer (map ucast (str ''QQ''))))"
    unfolding g t' by simp
  have 1: "fst (generateImage ?E state0 demo_options) = Inr ()" unfolding g by (rule ok)
  note B = first_match_wins[OF keyF respF]
  from B cF ct pt none
  have "generateImage ?F state0 demo_options = (Inl NoImageData, ?s1)" by blast
  then have 3: "generateImage ?F state0 demo_options = (Inl NoImageData, state0\<lparr>gemini_calls := 1\<rparr>)"
    by (simp add: state0_def)
  from 1 2 3 show ?thesis by blast
qed

lemma image_response_parts:
  "candidates image_response = Some (candidate_of [text_part, image_part (str ''QQ'')] # [])"
  "content (candidate_of ps) = Some \<lparr>parts = Some ps\<rparr>"
  "parts \<lparr>parts = Some ps\<rparr> = Some ps"
  "[text_part, image_part (str ''QQ'')] = [text_part] @ image_part (str ''QQ'') # []"
  "list_all (\<lambda>q. inline_payload q = None) [text_part]"
  "inline_payload (image_part (str ''QQ'')) = Some (str ''QQ'')"
  by (simp_all add: image_response_def candidate_of_def inline_payload_def text_part_def
        image_part_def str_def)

lemma image_succeeds:
  assumes "truthy (GOOGLE_API_KEY env)"
    and "generateContent env (gemini_calls s) (model_of options) (prompt options) = Inr image_response"
    and "fs_error env (fs_calls s) = None" "fs_error env (fs_calls s + 1) = None"
  shows "generateImage env s options = (Inr (), snd (generateImage env s options))"
  using generateImage_succeeds[OF assms(1,2) image_response_parts(1,2) _ image_response_parts(5,6) assms(3,4)]
  by (simp add: image_response_parts(3))

theorem failure_isolation_witness:
  "counters (run_items flaky_image_env (str ''menu'') (str ''Mains'') (str ''mains'') state0
               [item_a, item_b]) = (1, 0, 1) \<and>
   (\<exists>d. fsys (run_items flaky_image_env (str ''menu'') (str ''Mains'') (str ''mains'') state0
                 [item_a, item_b])
              (item_outputPath flaky_image_env (str ''menu'') (str ''mains'') item_b) =
          Some (File (Buffer d)))"
proof -
  let ?E = flaky_image_env
  let ?pa = "item_outputPath ?E (str ''menu'') (str ''mains'') item_a"
  let ?pb = "item_outputPath ?E (str ''menu'') (str ''mains'') item_b"
  let ?ka = "getCacheKey (name item_a) (str ''Mains'')"
  let ?kb = "getCacheKey (name item_b) (str ''Mains'')"
  let ?s1 = "state0\<lparr>openai_calls := openai_calls state0 + 1,
                     promptCache := AList.update ?ka (str ''draw Soup'') (promptCache state0)\<rparr>"
  let ?s2 = "?s1\<lparr>gemini_calls := gemini_calls ?s1 + 1\<rparr>"
  let ?t = "?s2\<lparr>totalFailed := totalFailed ?s2 + 1\<rparr>"
  let ?s3 = "?t\<lparr>openai_calls := openai_calls ?t + 1,
                   promptCache := AList.update ?kb (str ''draw Tea'') (promptCache ?t)\<rparr>"
  have key: "truthy (GOOGLE_API_KEY ?E)"
    by (simp add: flaky_image_env_def demo_env_def truthy_def str_def)
  have h1: "\<not> existsSync state0 ?pa" by (simp add: existsSync_def state0_def)
  have h2: "generatePromptWithGPT ?E state0 item_a (str ''Mains'') = (Inr (str ''draw Soup''), ?s1)"
    by (rule gp_store [where others = "[]"])
       (simp_all add: state0_def flaky_image_env_def demo_env_def item_a_def str_def)
  have h3: "generateImage ?E ?s1 \<lparr>prompt = str ''draw Soup'', outputPath = ?pa, model = None\<rparr> =
            (Inl (External 503), ?s2)"
    using key by (simp add: generateImage_def flaky_image_env_def state0_def)
  have h4: "\<not> existsSync ?t ?pb" by (simp add: existsSync_def state0_def)
  have h5: "generatePromptWithGPT ?E ?t item_b (str ''Mains'') = (Inr (str ''draw Tea''), ?s3)"
    by (rule gp_store [where others = "[]"])
       (simp_all add: state0_def flaky_image_env_def demo_env_def item_a_def item_b_def
          getCacheKey_def str_def)
  let ?ob = "\<lparr>prompt = str ''draw Tea'', outputPath = ?pb, model = None\<rparr>"
  have h6: "generateImage ?E ?s3 ?ob = (Inr (), snd (generateImage ?E ?s3 ?ob))"
    using key by (intro image_succeeds) (simp_all add: flaky_image_env_def demo_env_def state0_def)
  from failure_isolation[of state0 ?E "str ''menu''" "str ''mains''" item_a "str ''Mains''"]
    h1 h2 h3 h4 h5 h6
  have "counters (run_items ?E (str ''menu'') (str ''Mains'') (str ''mains'') state0 [item_a, item_b]) =
          (totalProcessed state0 + 1, totalSkipped state0, totalFailed state0 + 1) \<and>
        (\<exists>d. fsys (run_items ?E (str ''menu'') (str ''Mains'') (str ''mains'') state0 [item_a, item_b]) ?pb =
          Some (File (Buffer d)))"
    by blast
  then show ?thesis by (simp add: state0_def)
qed

lemma main_completes:
  assumes "truthy (GOOGLE_API_KEY env)" "truthy (OPENAI_API_KEY env)" "inputDirExists env"
    and "readdirSync env = Inr listing"
    and "filter (\<lambda>f. ends_with f (str ''.json'')) listing \<noteq> []"
    and "list_all (\<lambda>f. \<not> isl (readJson env f)) (filter (\<lambda>f. ends_with f (str ''.json'')) listing)"
    and "\<And>n. fs_error env n = None"
  shows "\<exists>r s'. main env s = (Inr r, s')"
proof -
  let ?files = "filter (\<lambda>f. ends_with f (str ''.json'')) listing"
  let ?s0 = "s\<lparr>totalProcessed := 0, totalSkipped := 0, totalFailed := 0\<rparr>"
  obtain s1 where rf: "run_files env ?s0 ?files = (Inr (), s1)"
    using pair_of_fst[OF run_files_completes[OF assms(6), of ?s0]] by blast
  obtain s2 where w:
    "writeFileSync env s1 (cacheOutputPath env) (JsonObject (promptCache s1)) = (Inr (), s2)"
    by (simp add: writeFileSync_def assms(7))
  have "fst (main env s) =
        Inr \<lparr>generated = totalProcessed s2, skipped = totalSkipped s2, failed = totalFailed s2,
             total = totalProcessed s2 + totalSkipped s2 + totalFailed s2\<rparr>"
    unfolding main_def Let_def using assms(1-5) by (simp add: rf w)
  from pair_of_fst[OF this] show ?thesis by blast
qed

text \<open>
  C6. The pause is inside the \<^verbatim>\<open>try\<close> block, after both steps, so an item that was
  attempted and failed is followed by no pause. Here the chat service fails on the first
  item: the item is counted as failed, one request was made, and no time was slept; the
  second item is attempted at once and succeeds, and over both attempted items the run
  slept 1000 ms, once.
\<close>

theorem no_pause_after_failure:
  "process_item flaky_chat_env (str ''menu'') (str ''Mains'') (str ''mains'') state0 item_a =
     state0\<lparr>openai_calls := 1, totalFailed := 1\<rparr> \<and>
   slept_ms (process_item flaky_chat_env (str ''menu'') (str ''Mains'') (str ''mains'') state0 item_a) = 0 \<and>
   counters (run_items flaky_chat_env (str ''menu'') (str ''Mains'') (str ''mains'') state0
               [item_a, item_b]) = (1, 0, 1) \<and>
   openai_calls (run_items flaky_chat_env (str ''menu'') (str ''Mains'') (str ''mains'') state0
               [item_a, item_b]) = 2 \<and>
   slept_ms (run_items flaky_chat_env (str ''menu'') (str ''Mains'') (str ''mains'') state0
               [item_a, item_b]) = 1000"
proof -
  let ?E = flaky_chat_env
  let ?pa = "item_outputPath ?E (str ''menu'') (str ''mains'') item_a"
  let ?pb = "item_outputPath ?E (str ''menu'') (str ''mains'') item_b"
  let ?kb = "getCacheKey (name item_b) (str ''Mains'')"
  let ?t = "state0\<lparr>openai_calls := 1, totalFailed := 1\<rparr>"
  let ?s3 = "?t\<lparr>openai_calls := openai_calls ?t + 1,
                   promptCache := AList.update ?kb (str ''draw Tea'') (promptCache ?t)\<rparr>"
  let ?ob = "\<lparr>prompt = str ''draw Tea'', outputPath = ?pb, model = None\<rparr>"
  let ?s4 = "snd (generateImage ?E ?s3 ?ob)"
  have key: "truthy (GOOGLE_API_KEY ?E)"
    by (simp add: flaky_chat_env_def demo_env_def truthy_def str_def)
  have h1: "\<not> existsSync state0 ?pa" by (simp add: existsSync_def state0_def)
  have h2: "generatePromptWithGPT ?E state0 item_a (str ''Mains'') =
            (Inl (External 429), state0\<lparr>openai_calls := openai_calls state0 + 1\<rparr>)"
    by (rule gp_service_error) (simp_all add: state0_def flaky_chat_env_def)
  have a: "process_item ?E (str ''menu'') (str ''Mains'') (str ''mains'') state0 item_a = ?t"
    unfolding process_item_prompt_fails(1)[OF h1 h2] by (simp add: state0_def)
  have h4: "\<not> existsSync ?t ?pb" by (simp add: existsSync_def state0_def)
  have h5: "generatePromptWithGPT ?E ?t item_b (str ''Mains'') = (Inr (str ''draw Tea''), ?s3)"
    by (rule gp_store [where others = "[]"])
       (simp_all add: state0_def flaky_chat_env_def demo_env_def item_b_def str_def)
  have h6: "generateImage ?E ?s3 ?ob = (Inr (), ?s4)"
    using key by (intro image_succeeds) (simp_all add: flaky_chat_env_def demo_env_def state0_def)
  note b = process_item_succeeds[OF h4 h5 h6]
  have r: "run_items ?E (str ''menu'') (str ''Mains'') (str ''mains'') state0 [item_a, item_b] =
           process_item ?E (str ''menu'') (str ''Mains'') (str ''mains'') ?t item_b"
    by (simp add: run_items_def a)
  have "slept_ms ?s3 = 0" by (simp add: state0_def)
  moreover from generateImage_same_run[OF h6] have "slept_ms ?s4 = slept_ms ?s3"
    unfolding same_run_def by blast
  ultimately have sl: "slept_ms ?s4 = 0" by metis
  have "openai_calls ?s3 = 2" by (simp add: state0_def)
  with generateImage_keeps_cache[OF h6] have oc: "openai_calls ?s4 = 2" by metis
  have 1: "slept_ms ?t = 0" by (simp add: state0_def)
  have 2: "counters (process_item ?E (str ''menu'') (str ''Mains'') (str ''mains'') ?t item_b) = (1, 0, 1)"
    unfolding b(2) by (simp add: state0_def)
  have 3: "openai_calls (process_item ?E (str ''menu'') (str ''Mains'') (str ''mains'') ?t item_b) = 2"
    unfolding b(1) using oc by simp
  have 4: "slept_ms (process_item ?E (str ''menu'') (str ''Mains'') (str ''mains'') ?t item_b) = 1000"
    unfolding b(1) using sl by simp
  show ?thesis unfolding r unfolding a by (intro conjI refl 1 2 3 4)
qed

theorem counter_accounting_witness:
  "\<exists>r s'. main demo_env state0 = (Inr r, s') \<and> total r = 2 \<and>
           generated r + skipped r + failed r = 2"
proof -
  have l: "readdirSync demo_env = Inr [str ''menu.json'']" by (simp add: demo_env_def)
  have f: "filter (\<lambda>f. ends_with f (str ''.json'')) [str ''menu.json''] = [str ''menu.json'']"
    by (simp add: ends_with_def str_def)
  have k: "truthy (GOOGLE_API_KEY demo_env)" "truthy (OPENAI_API_KEY demo_env)"
    "inputDirExists demo_env" "\<And>n. fs_error demo_env n = None"
    by (simp_all add: demo_env_def truthy_def str_def)
  have ne: "filter (\<lambda>f. ends_with f (str ''.json'')) [str ''menu.json''] \<noteq> []"
    unfolding f by simp
  have ok: "list_all (\<lambda>f. \<not> isl (readJson demo_env f))
              (filter (\<lambda>f. ends_with f (str ''.json'')) [str ''menu.json''])"
    unfolding f by (simp add: demo_env_def)
  have "\<exists>r s'. main demo_env state0 = (Inr r, s')"
    using k(1,2,3) l ne ok k(4) by (rule main_completes)
  then obtain r s' where m: "main demo_env state0 = (Inr r, s')" by blast
  have n: "enumerated demo_env [str ''menu.json''] = 2"
    by (simp add: enumerated_def count_items_def demo_env_def)
  from counter_accounting[of demo_env "str ''menu''" "str ''Mains''" "str ''mains''" state0 item_a] l m
  have "total r = generated r + skipped r + failed r \<and>
        total r = enumerated demo_env (filter (\<lambda>f. ends_with f (str ''.json'')) [str ''menu.json''])"
    by blast
  with m show ?thesis unfolding f n by auto
qed

theorem fatal_error_loses_cache_witness:
  "fst (main two_files_env state0) = Inl (External 1) \<and>
   no_new_snapshot (fsys state0) (fsys (snd (main two_files_env state0))) \<and>
   promptCache (snd (main two_files_env state0)) = [(str ''Mains::Soup'', str ''draw Soup'')] \<and>
   totalProcessed (snd (main two_files_env state0)) = 1"
proof -
  let ?E = two_files_env
  let ?s0 = "state0\<lparr>totalProcessed := 0, totalSkipped := 0, totalFailed := 0\<rparr>"
  have k: "truthy (GOOGLE_API_KEY ?E)" "truthy (OPENAI_API_KEY ?E)" "inputDirExists ?E"
    by (simp_all add: two_files_env_def demo_env_def truthy_def str_def)
  have l: "readdirSync ?E = Inr [str ''a.json'', str ''b.json'']"
    by (simp add: two_files_env_def)
  have f: "filter (\<lambda>g. ends_with g (str ''.json'')) [str ''a.json'', str ''b.json''] =
           [str ''a.json''] @ str ''b.json'' # []"
    by (simp add: ends_with_def str_def)
  have ra: "readJson ?E (str ''a.json'') = Inr [(str ''Mains'', \<lparr>Items = [item_a]\<rparr>)]"
    by (simp add: two_files_env_def)
  have pa: "list_all (\<lambda>g. \<not> isl (readJson ?E g)) [str ''a.json'']" by (simp add: ra)
  have rb: "readJson ?E (str ''b.json'') = Inl (External 1)"
    by (simp add: two_files_env_def str_def)
  note T = fatal_error_loses_cache[of ?E state0]
  from T k l f pa rb
  have m: "main ?E state0 = (Inl (External 1), snd (run_files ?E ?s0 [str ''a.json'']))"
    by blast
  from T m have ns: "no_new_snapshot (fsys state0) (fsys (snd (run_files ?E ?s0 [str ''a.json''])))"
    by blast
  let ?seg = "segment_of ?E (str ''a.json'')"
  let ?fc = "formatFileName (unicodeLower ?E) (str ''Mains'')"
  let ?p = "item_outputPath ?E ?seg ?fc item_a"
  let ?ka = "getCacheKey (name item_a) (str ''Mains'')"
  let ?s1 = "?s0\<lparr>openai_calls := openai_calls ?s0 + 1,
                    promptCache := AList.update ?ka (str ''draw Soup'') (promptCache ?s0)\<rparr>"
  let ?o = "\<lparr>prompt = str ''draw Soup'', outputPath = ?p, model = None\<rparr>"
  let ?s2 = "snd (generateImage ?E ?s1 ?o)"
  have rf: "snd (run_files ?E ?s0 [str ''a.json'']) =
            process_item ?E ?seg (str ''Mains'') ?fc ?s0 item_a"
    by (simp add: ra run_category_def run_items_def Let_def)
  have h1: "\<not> existsSync ?s0 ?p" by (simp add: existsSync_def state0_def)
  have h2: "generatePromptWithGPT ?E ?s0 item_a (str ''Mains'') = (Inr (str ''draw Soup''), ?s1)"
    by (rule gp_store [where others = "[]"])
       (simp_all add: state0_def two_files_env_def demo_env_def item_a_def str_def)
  have h3: "generateImage ?E ?s1 ?o = (Inr (), ?s2)"
    using k(1) by (intro image_succeeds) (simp_all add: two_files_env_def demo_env_def state0_def)
  note b = process_item_succeeds[OF h1 h2 h3]
  have "promptCache ?s1 = [(str ''Mains::Soup'', str ''draw Soup'')]"
    by (simp add: state0_def getCacheKey_def item_a_def str_def)
  moreover from generateImage_keeps_cache[OF h3] have "promptCache ?s2 = promptCache ?s1"
    by blast
  ultimately have c: "promptCache ?s2 = [(str ''Mains::Soup'', str ''draw Soup'')]"
    by metis
  have 3: "promptCache (snd (run_files ?E ?s0 [str ''a.json''])) =
           [(str ''Mains::Soup'', str ''draw Soup'')]"
    unfolding rf b(1) using c by simp
  have 4: "totalProcessed (snd (run_files ?E ?s0 [str ''a.json''])) = 1"
    using b(2) unfolding rf by (simp add: counters_def state0_def)
  show ?thesis unfolding m using ns 3 4 by simp
qed


end
